theory Spec2Isabelle
  imports Complex_Main "HOL-Library.Word" "HOL-Library.AList"
begin

section \<open>The TV connection of BrokeMyLGRemote (src/tv-connection.ts)\<close>

text \<open>
  The class \<open>TVConnection\<close> is a bundle of mutable fields driven by callbacks of the
  JavaScript event loop: socket events, timers and calls of its methods. Every callback
  runs to completion, so each one is a function from the state before it to the state
  after it. The state below holds the fields of the object under their own names,
  followed by the part of the world the callbacks talk to: the sockets ever created,
  the timers that are scheduled, the configuration file, and the list of effects that
  left the object (status notifications, frames written to a socket, settled promises).
\<close>

subsection \<open>Values on the wire\<close>

datatype json =
    JNull
  | JBool bool
  | JNum real
  | JStr string
  | JArr "json list"
  | JObj "(string \<times> json) list"

type_synonym jsobj = "(string \<times> json) list"

text \<open>JavaScript truthiness of a parsed JSON value.\<close>

fun truthy :: "json \<Rightarrow> bool" where
  "truthy JNull = False"
| "truthy (JBool b) = b"
| "truthy (JNum x) = (x \<noteq> 0)"
| "truthy (JStr s) = (s \<noteq> [])"
| "truthy (JArr _) = True"
| "truthy (JObj _) = True"

text \<open>\<open>LGResponse\<close>: a parsed incoming message. A missing \<open>id\<close>, \<open>payload\<close> or
  \<open>error\<close> is \<open>None\<close>.\<close>

record LGResponse =
  resp_id :: "string option"
  resp_type :: string
  resp_payload :: "jsobj option"
  resp_error :: "string option"

text \<open>An outgoing message of the main channel, before \<open>JSON.stringify\<close>.\<close>

record request =
  req_id :: "string option"
  req_type :: string
  req_uri :: "string option"
  req_payload :: "jsobj option"

record TVConfig =
  cfg_tvIp :: string
  cfg_clientKey :: string

datatype TVConnectionStatus = disconnected | connecting | pairing | ready

text \<open>\<open>TVStatus\<close>, the snapshot handed to the listener.\<close>

record TVStatus =
  st_status :: TVConnectionStatus
  st_tvIp :: "string option"
  st_currentApp :: json
  st_volume :: json
  st_muted :: json

subsection \<open>Sockets, timers, handlers, effects\<close>

datatype readyState = CONNECTING | OPEN | CLOSING | CLOSED

text \<open>
  A socket is known by its index in the list of sockets. A main socket carries the
  variables its callbacks close over: the \<open>settled\<close> flag of \<open>connectWebSocket\<close>, and
  the point at which the loop of \<open>connect\<close> is suspended while it awaits this attempt
  (the endpoints still to try and the errors collected so far). No attempt waits for a
  pointer socket: its flag is set from the start and its lists are empty.
\<close>

record ws =
  ws_url :: string
  ws_readyState :: readyState
  ws_pointer :: bool
  ws_settled :: bool
  ws_rest :: "string list"
  ws_errors :: "string list"

text \<open>Who awaits the promise of a \<open>sendMain\<close>.\<close>

datatype caller = SetupPointerSocket | Command

text \<open>The callbacks stored in \<open>pendingRequests\<close>: the \<open>resolve\<close> of a \<open>sendMain\<close>
  promise (named by the identifier it was sent under), the handler of \<open>register\<close>
  (named by the socket whose attempt awaits it) and the two subscription handlers.\<close>

datatype handler =
    Resolver string caller
  | RegisterHandler nat
  | ForegroundAppHandler
  | VolumeHandler

datatype timer =
    ConnectTimeout nat
  | RegisterTimeout string nat
  | SendMainTimeout string caller
  | ClickRelease

datatype effect =
    Notify TVStatus
  | SentJson nat request
  | SentBytes nat "8 word list"
  | Resolved string LGResponse
  | Rejected string string
  | CommandFailed string
  | ConnectResolved
  | ConnectRejected string

record state =
  mainWs :: "nat option"
  pointerWs :: "nat option"
  status :: TVConnectionStatus
  tvIp :: "string option"
  clientKey :: "string option"
  msgId :: nat
  pendingRequests :: "string \<rightharpoonup> handler"
  subscriptionIds :: "string set"
  registrationRequestId :: "string option"
  currentApp :: json
  volume :: json
  muted :: json
  onStatusChange :: bool
  sockets :: "ws list"
  timers :: "timer list"
  store :: "TVConfig option"
  fsWritable :: bool
  wsCtorError :: "string \<Rightarrow> string option"
  int16Checked :: bool
  LG_HANDSHAKE_PAYLOAD :: jsobj
  effects :: "effect list"

text \<open>
  The last fields are the environment. \<open>store\<close> is what \<open>loadConfig\<close> would return
  (\<open>None\<close> when the file is missing or unreadable); \<open>fsWritable\<close> says whether
  \<open>writeFile\<close> succeeds; \<open>wsCtorError url\<close> is the message of the exception thrown by
  \<open>new WebSocket(url)\<close>, if it throws; \<open>int16Checked\<close> says whether the runtime's
  \<open>Buffer.writeInt16LE\<close> rejects a value outside the signed 16-bit range (it then
  throws a RangeError) or stores it modulo \<open>2^16\<close>. \<open>LG_HANDSHAKE_PAYLOAD\<close> is the
  constant of \<open>types.ts\<close>, which is not part of the sources at hand and is therefore
  kept as a parameter.
\<close>

definition initial :: "TVConfig option \<Rightarrow> bool \<Rightarrow> (string \<Rightarrow> string option) \<Rightarrow> bool \<Rightarrow> jsobj \<Rightarrow> state" where
  "initial cfg w ctor chk hp =
     \<lparr> mainWs = None, pointerWs = None, status = disconnected, tvIp = None,
       clientKey = None, msgId = 0, pendingRequests = Map.empty, subscriptionIds = {},
       registrationRequestId = None, currentApp = JNull, volume = JNull, muted = JNull,
       onStatusChange = False, sockets = [], timers = [], store = cfg, fsWritable = w,
       wsCtorError = ctor, int16Checked = chk, LG_HANDSHAKE_PAYLOAD = hp, effects = [] \<rparr>"

subsection \<open>Small helpers of the runtime\<close>

definition emit :: "effect \<Rightarrow> state \<Rightarrow> state" where
  "emit e s = s\<lparr>effects := effects s @ [e]\<rparr>"

text \<open>\<open>socket.close()\<close>: an open or connecting socket starts closing; the \<open>close\<close>
  event comes later, as an event of its own.\<close>

definition ws_close :: "nat \<Rightarrow> state \<Rightarrow> state" where
  "ws_close h s =
     (if h < length (sockets s) \<and> ws_readyState (sockets s ! h) \<in> {CONNECTING, OPEN}
      then s\<lparr>sockets := (sockets s)[h := (sockets s ! h)\<lparr>ws_readyState := CLOSING\<rparr>]\<rparr>
      else s)"

text \<open>\<open>this.x?.close()\<close> for a field holding a socket or null.\<close>

definition close_opt :: "nat option \<Rightarrow> state \<Rightarrow> state" where
  "close_opt w s = (case w of None \<Rightarrow> s | Some h \<Rightarrow> ws_close h s)"

definition is_open :: "state \<Rightarrow> nat \<Rightarrow> bool" where
  "is_open s h = (h < length (sockets s) \<and> ws_readyState (sockets s ! h) = OPEN)"

definition clearTimeout :: "timer \<Rightarrow> state \<Rightarrow> state" where
  "clearTimeout t s = s\<lparr>timers := removeAll t (timers s)\<rparr>"

definition setTimeout :: "timer \<Rightarrow> state \<Rightarrow> state" where
  "setTimeout t s = s\<lparr>timers := timers s @ [t]\<rparr>"

text \<open>Template literal \<open>${n}\<close> for a natural number: its decimal digits.\<close>

definition digit :: "nat \<Rightarrow> char" where
  "digit d = char_of (48 + d)"

fun show_nat :: "nat \<Rightarrow> string" where
  "show_nat n = (if n < 10 then [digit n] else show_nat (n div 10) @ [digit (n mod 10)])"

declare show_nat.simps [simp del]

text \<open>\<open>Array.prototype.join\<close>.\<close>

fun join :: "string \<Rightarrow> string list \<Rightarrow> string" where
  "join sep [] = []"
| "join sep [x] = x"
| "join sep (x # y # ys) = x @ sep @ join sep (y # ys)"

subsection \<open>Status\<close>

definition getStatus :: "state \<Rightarrow> TVStatus" where
  "getStatus s =
     \<lparr> st_status = status s, st_tvIp = tvIp s, st_currentApp = currentApp s,
       st_volume = volume s, st_muted = muted s \<rparr>"

definition setStatusCallback :: "state \<Rightarrow> state" where
  "setStatusCallback s = s\<lparr>onStatusChange := True\<rparr>"

text \<open>\<open>this.onStatusChange?.(this.getStatus())\<close>\<close>

definition notify :: "state \<Rightarrow> state" where
  "notify s = (if onStatusChange s then emit (Notify (getStatus s)) s else s)"

definition setStatus :: "TVConnectionStatus \<Rightarrow> state \<Rightarrow> state" where
  "setStatus st s = notify (s\<lparr>status := st\<rparr>)"

subsection \<open>Configuration file\<close>

definition loadConfig :: "state \<Rightarrow> TVConfig option" where
  "loadConfig s = store s"

text \<open>\<open>saveConfig\<close> returns early unless both the address and the key are non-empty
  strings. A failing \<open>writeFile\<close> rejects the promise of \<open>saveConfig\<close>; its only
  caller discards that rejection, so nothing but the file is affected.\<close>

definition saveConfig :: "state \<Rightarrow> state" where
  "saveConfig s =
     (case (tvIp s, clientKey s) of
        (Some ip, Some k) \<Rightarrow>
          if ip = [] \<or> k = [] then s
          else if fsWritable s then s\<lparr>store := Some \<lparr>cfg_tvIp = ip, cfg_clientKey = k\<rparr>\<rparr>
          else s
      | _ \<Rightarrow> s)"

subsection \<open>Request identifiers and the correlator\<close>

definition nextId :: "state \<Rightarrow> string \<times> state" where
  "nextId s = (''msg_'' @ show_nat (msgId s + 1), s\<lparr>msgId := msgId s + 1\<rparr>)"

text \<open>\<open>socket.send(data)\<close> on a field that may be null: a null field and a socket that
  is still connecting throw; an open socket transmits; a closing or closed socket drops
  the data silently.\<close>

definition send_json :: "nat option \<Rightarrow> request \<Rightarrow> state \<Rightarrow> string + state" where
  "send_json w m s =
     (case w of
        None \<Rightarrow> Inl ''TypeError''
      | Some h \<Rightarrow>
          if h < length (sockets s) \<and> ws_readyState (sockets s ! h) = CONNECTING
          then Inl ''InvalidStateError''
          else if is_open s h then Inr (emit (SentJson h m) s)
          else Inr s)"

definition send_bytes :: "nat option \<Rightarrow> 8 word list \<Rightarrow> state \<Rightarrow> string + state" where
  "send_bytes w bs s =
     (case w of
        None \<Rightarrow> Inl ''TypeError''
      | Some h \<Rightarrow>
          if h < length (sockets s) \<and> ws_readyState (sockets s ! h) = CONNECTING
          then Inl ''InvalidStateError''
          else if is_open s h then Inr (emit (SentBytes h bs) s)
          else Inr s)"

text \<open>
  \<open>sendMain\<close>, the executor of its promise. \<open>Inl\<close> is the immediate rejection when the
  main socket is absent or not open; \<open>Inr\<close> carries the identifier under which the
  \<open>resolve\<close> of the promise was stored. The identifier is the one of the message when
  it has a non-empty one, a fresh one otherwise.
\<close>

definition sendMain :: "request \<Rightarrow> caller \<Rightarrow> state \<Rightarrow> (string + string) \<times> state" where
  "sendMain msg c s =
     (case mainWs s of
        None \<Rightarrow> (Inl ''Main WebSocket not connected'', s)
      | Some h \<Rightarrow>
          if \<not> is_open s h then (Inl ''Main WebSocket not connected'', s)
          else
            let (i, s1) = (case req_id msg of
                             Some j \<Rightarrow> if j \<noteq> [] then (j, s) else nextId s
                           | None \<Rightarrow> nextId s);
                s2 = s1\<lparr>pendingRequests := (pendingRequests s1)(i \<mapsto> Resolver i c)\<rparr>;
                s3 = emit (SentJson h (msg\<lparr>req_id := Some i\<rparr>)) s2
            in (Inr i, setTimeout (SendMainTimeout i c) s3))"

text \<open>The callback of the 10 second timer of \<open>sendMain\<close>.\<close>

definition sendMain_timeout :: "string \<Rightarrow> state \<Rightarrow> state" where
  "sendMain_timeout i s =
     (if pendingRequests s i \<noteq> None
      then emit (Rejected i (''Request '' @ i @ '' timed out''))
             (s\<lparr>pendingRequests := (pendingRequests s)(i := None)\<rparr>)
      else s)"

subsection \<open>Trying the endpoints\<close>

definition wsUrls :: "string \<Rightarrow> string list" where
  "wsUrls ip = [''wss://'' @ ip @ '':3001'', ''wss://'' @ ip @ '':3000'', ''ws://'' @ ip @ '':3000'']"

text \<open>The body of the \<open>catch\<close> in the loop of \<open>connect\<close>, after the error was recorded.\<close>

definition connect_catch :: "state \<Rightarrow> state" where
  "connect_catch s =
     (let s1 = close_opt (mainWs s) s;
          s2 = s1\<lparr>mainWs := None\<rparr>;
          s3 = close_opt (pointerWs s2) s2
      in s3\<lparr>pointerWs := None\<rparr>)"

text \<open>
  \<open>connectWebSocket\<close>, as far as it runs before the first event: a new socket in state
  CONNECTING becomes \<open>mainWs\<close>, and the 12 second timer is set. The socket remembers
  where the loop of \<open>connect\<close> stands.
\<close>

definition connectWebSocket :: "string \<Rightarrow> string list \<Rightarrow> string list \<Rightarrow> state \<Rightarrow> state" where
  "connectWebSocket wsUrl rest errs s =
     (let h = length (sockets s);
          s1 = setTimeout (ConnectTimeout h) s
      in s1\<lparr>sockets := sockets s1 @
               [\<lparr>ws_url = wsUrl, ws_readyState = CONNECTING, ws_pointer = False,
                 ws_settled = False, ws_rest = rest, ws_errors = errs\<rparr>],
             mainWs := Some h\<rparr>)"

text \<open>
  The loop of \<open>connect\<close> from a given endpoint on. It stops at the first endpoint whose
  socket could be created and waits for that attempt. When the constructor throws, the
  promise of \<open>connectWebSocket\<close> is rejected at once and the loop goes on (the timer set
  before the throw can only reject that promise again, which does nothing). With no
  endpoint left the status becomes \<open>disconnected\<close> and \<open>connect\<close> rejects.
\<close>

fun connect_loop :: "string list \<Rightarrow> string list \<Rightarrow> state \<Rightarrow> state" where
  "connect_loop [] errs s =
     emit (ConnectRejected (''Failed to connect to TV. Attempts: '' @ join '' | '' errs))
       (setStatus disconnected s)"
| "connect_loop (wsUrl # rest) errs s =
     (let s1 = setStatus connecting s in
      case wsCtorError s1 wsUrl of
        Some message \<Rightarrow>
          connect_loop rest (errs @ [wsUrl @ '' -> '' @ message]) (connect_catch s1)
      | None \<Rightarrow> connectWebSocket wsUrl rest errs s1)"

text \<open>The closure \<open>fail\<close> of the attempt on socket \<open>h\<close>: the first call rejects the
  promise of \<open>connectWebSocket\<close>, which resumes \<open>connect\<close> in its \<open>catch\<close>.\<close>

definition fail :: "nat \<Rightarrow> string \<Rightarrow> state \<Rightarrow> state" where
  "fail h message s =
     (if h < length (sockets s) \<and> \<not> ws_settled (sockets s ! h) then
        let w = sockets s ! h;
            s1 = s\<lparr>sockets := (sockets s)[h := w\<lparr>ws_settled := True\<rparr>]\<rparr>;
            s2 = clearTimeout (ConnectTimeout h) s1
        in connect_loop (ws_rest w) (ws_errors w @ [ws_url w @ '' -> '' @ message])
             (connect_catch s2)
      else s)"

text \<open>The \<open>then\<close> of \<open>register()\<close> in \<open>onopen\<close>: \<open>settled = true; resolve()\<close>. Resolving
  a promise that \<open>fail\<close> has rejected does nothing.\<close>

definition succeed :: "nat \<Rightarrow> state \<Rightarrow> state" where
  "succeed h s =
     (if h < length (sockets s) \<and> \<not> ws_settled (sockets s ! h)
      then emit ConnectResolved
             (s\<lparr>sockets := (sockets s)[h := (sockets s ! h)\<lparr>ws_settled := True\<rparr>]\<rparr>)
      else s)"

subsection \<open>Disconnect and connect\<close>

definition disconnect :: "state \<Rightarrow> state" where
  "disconnect s =
     (let s1 = close_opt (mainWs s) s;
          s2 = close_opt (pointerWs s1) s1;
          s3 = s2\<lparr>mainWs := None, pointerWs := None\<rparr>;
          s4 = setStatus disconnected s3
      in s4\<lparr>currentApp := JNull, volume := JNull, muted := JNull,
             pendingRequests := Map.empty, subscriptionIds := {},
             registrationRequestId := None\<rparr>)"

text \<open>\<open>connect\<close> up to its first wait for a socket. The source awaits \<open>loadConfig\<close>
  before it enters the loop; here the file is read at the call and the loop is entered in
  the same turn, so that no other callback runs between the two.\<close>

definition connect :: "string \<Rightarrow> state \<Rightarrow> state" where
  "connect ip s =
     (let s1 = (if mainWs s \<noteq> None then disconnect s else s);
          s2 = setStatus connecting (s1\<lparr>tvIp := Some ip\<rparr>);
          s3 = (case loadConfig s2 of
                  Some config \<Rightarrow>
                    if cfg_tvIp config = ip then s2\<lparr>clientKey := Some (cfg_clientKey config)\<rparr>
                    else s2
                | None \<Rightarrow> s2)
      in connect_loop (wsUrls ip) [] s3)"

subsection \<open>Auxiliary channel and default subscriptions\<close>

text \<open>\<open>setupPointerSocket\<close> up to its \<open>await\<close>. A rejection of \<open>sendMain\<close> is caught
  and dropped.\<close>

definition setupPointerSocket :: "state \<Rightarrow> state" where
  "setupPointerSocket s =
     snd (sendMain \<lparr>req_id = None, req_type = ''request'',
                    req_uri = Some ''ssap://com.webos.service.networkinput/getPointerInputSocket'',
                    req_payload = None\<rparr> SetupPointerSocket s)"

text \<open>\<open>setupPointerSocket\<close> after its \<open>await\<close>. Without a truthy \<open>socketPath\<close> it
  returns; a truthy one that is no string, or one the constructor refuses, throws into
  the \<open>catch\<close>, which drops the exception.\<close>

definition setupPointerSocket_resume :: "LGResponse \<Rightarrow> state \<Rightarrow> state" where
  "setupPointerSocket_resume resp s =
     (case resp_payload resp of
        None \<Rightarrow> s
      | Some p \<Rightarrow>
          (case map_of p ''socketPath'' of
             Some (JStr socketPath) \<Rightarrow>
               if socketPath = [] then s
               else (case wsCtorError s socketPath of
                       Some _ \<Rightarrow> s
                     | None \<Rightarrow>
                         s\<lparr>sockets := sockets s @
                              [\<lparr>ws_url = socketPath, ws_readyState = CONNECTING, ws_pointer = True,
                                ws_settled = True, ws_rest = [], ws_errors = []\<rparr>],
                           pointerWs := Some (length (sockets s))\<rparr>)
           | _ \<Rightarrow> s))"

text \<open>\<open>subscribeToStatus\<close>. A throwing \<open>send\<close> ends it in its \<open>catch\<close>, with the
  entries made so far left in place.\<close>

definition subscribeToStatus :: "state \<Rightarrow> state" where
  "subscribeToStatus s =
     (let (fgId, s1) = nextId s;
          s2 = s1\<lparr>subscriptionIds := insert fgId (subscriptionIds s1)\<rparr>;
          s3 = s2\<lparr>pendingRequests := (pendingRequests s2)(fgId \<mapsto> ForegroundAppHandler)\<rparr>
      in case send_json (mainWs s3)
                \<lparr>req_id = Some fgId, req_type = ''subscribe'',
                 req_uri = Some ''ssap://com.webos.applicationManager/getForegroundAppInfo'',
                 req_payload = None\<rparr> s3 of
           Inl _ \<Rightarrow> s3
         | Inr s4 \<Rightarrow>
             (let (volId, s5) = nextId s4;
                  s6 = s5\<lparr>subscriptionIds := insert volId (subscriptionIds s5)\<rparr>;
                  s7 = s6\<lparr>pendingRequests := (pendingRequests s6)(volId \<mapsto> VolumeHandler)\<rparr>
              in case send_json (mainWs s7)
                        \<lparr>req_id = Some volId, req_type = ''subscribe'',
                         req_uri = Some ''ssap://audio/getVolume'', req_payload = None\<rparr> s7 of
                   Inl _ \<Rightarrow> s7
                 | Inr s8 \<Rightarrow> s8))"

text \<open>The two subscription handlers.\<close>

definition foregroundApp_handler :: "LGResponse \<Rightarrow> state \<Rightarrow> state" where
  "foregroundApp_handler resp s =
     (case resp_payload resp of
        None \<Rightarrow> s
      | Some p \<Rightarrow>
          (case map_of p ''appId'' of
             Some v \<Rightarrow> if truthy v then notify (s\<lparr>currentApp := v\<rparr>) else s
           | None \<Rightarrow> s))"

text \<open>\<open>(resp.payload.muted as boolean) ?? this.muted\<close>: the old value stays when the
  field is missing or null.\<close>

definition coalesce_muted :: "jsobj \<Rightarrow> json \<Rightarrow> json" where
  "coalesce_muted p old = (case map_of p ''muted'' of Some v \<Rightarrow> if v = JNull then old else v | None \<Rightarrow> old)"

definition volume_handler :: "LGResponse \<Rightarrow> state \<Rightarrow> state" where
  "volume_handler resp s =
     (case resp_payload resp of
        None \<Rightarrow> s
      | Some p \<Rightarrow>
          (case map_of p ''volume'' of
             Some v \<Rightarrow> notify (s\<lparr>volume := v, muted := coalesce_muted p (muted s)\<rparr>)
           | None \<Rightarrow> s))"

subsection \<open>Handshake\<close>

definition handshake_payload :: "state \<Rightarrow> jsobj" where
  "handshake_payload s =
     (case clientKey s of
        Some k \<Rightarrow> if k \<noteq> [] then AList.update ''client-key'' (JStr k) (LG_HANDSHAKE_PAYLOAD s)
                  else LG_HANDSHAKE_PAYLOAD s
      | None \<Rightarrow> LG_HANDSHAKE_PAYLOAD s)"

text \<open>\<open>register\<close> up to the point where its promise waits. \<open>h\<close> is the socket whose
  \<open>onopen\<close> called it. A throwing \<open>send\<close> rejects the promise, which \<open>onopen\<close> passes to
  \<open>fail\<close>.\<close>

definition register :: "nat \<Rightarrow> state \<Rightarrow> state" where
  "register h s =
     (let payload = handshake_payload s;
          (i, s1) = nextId s;
          s2 = s1\<lparr>registrationRequestId := Some i\<rparr>;
          s3 = s2\<lparr>pendingRequests := (pendingRequests s2)(i \<mapsto> RegisterHandler h)\<rparr>
      in case send_json (mainWs s3)
                \<lparr>req_id = Some i, req_type = ''register'', req_uri = None,
                 req_payload = Some payload\<rparr> s3 of
           Inl e \<Rightarrow> fail h e s3
         | Inr s4 \<Rightarrow> setTimeout (RegisterTimeout i h) s4)"

definition returnedClientKey :: "LGResponse \<Rightarrow> string option" where
  "returnedClientKey resp =
     (case resp_payload resp of
        None \<Rightarrow> None
      | Some p \<Rightarrow> (case map_of p ''client-key'' of
                     Some (JStr k) \<Rightarrow> if k \<noteq> [] then Some k else None
                   | _ \<Rightarrow> None))"

text \<open>The closure \<open>handler\<close> of \<open>register\<close>. \<open>returnedClientKey resp\<close> is the returned
  key when it is a non-empty string.\<close>

definition register_handler :: "nat \<Rightarrow> LGResponse \<Rightarrow> state \<Rightarrow> state" where
  "register_handler h resp s =
     (if resp_type resp = ''registered''
         \<or> (resp_type resp = ''response'' \<and> returnedClientKey resp \<noteq> None) then
        let s1 = (case returnedClientKey resp of Some k \<Rightarrow> s\<lparr>clientKey := Some k\<rparr> | None \<Rightarrow> s);
            s2 = saveConfig s1;
            s3 = setStatus ready s2;
            s4 = setupPointerSocket s3;
            s5 = subscribeToStatus s4
        in succeed h s5
      else if resp_type resp = ''error'' then
        fail h (case resp_error resp of
                  Some e \<Rightarrow> if e \<noteq> [] then e else ''Registration failed''
                | None \<Rightarrow> ''Registration failed'')
          (setStatus disconnected s)
      else s)"

text \<open>The callback of the 30 second timer of \<open>register\<close>.\<close>

definition register_timeout :: "string \<Rightarrow> nat \<Rightarrow> state \<Rightarrow> state" where
  "register_timeout i h s =
     (if pendingRequests s i \<noteq> None
      then fail h ''Registration timed out - check TV for pairing prompt''
             (s\<lparr>pendingRequests := (pendingRequests s)(i := None),
                registrationRequestId := None\<rparr>)
      else s)"

subsection \<open>Incoming messages\<close>

text \<open>Calling a stored callback. The \<open>resolve\<close> of a \<open>sendMain\<close> promise resumes whoever
  awaits it.\<close>

definition invoke :: "handler \<Rightarrow> LGResponse \<Rightarrow> state \<Rightarrow> state" where
  "invoke handler resp s =
     (case handler of
        Resolver i c \<Rightarrow>
          (let s1 = emit (Resolved i resp) s
           in case c of SetupPointerSocket \<Rightarrow> setupPointerSocket_resume resp s1 | Command \<Rightarrow> s1)
      | RegisterHandler h \<Rightarrow> register_handler h resp s
      | ForegroundAppHandler \<Rightarrow> foregroundApp_handler resp s
      | VolumeHandler \<Rightarrow> volume_handler resp s)"

definition registrationDone :: "LGResponse \<Rightarrow> bool" where
  "registrationDone resp =
     (resp_type resp = ''registered'' \<or> resp_type resp = ''error''
      \<or> (case resp_payload resp of
            None \<Rightarrow> False
          | Some p \<Rightarrow> (case map_of p ''client-key'' of Some (JStr _) \<Rightarrow> True | _ \<Rightarrow> False)))"

definition lookup_handler :: "state \<Rightarrow> LGResponse \<Rightarrow> handler option" where
  "lookup_handler s resp = (case resp_id resp of None \<Rightarrow> None | Some i \<Rightarrow> pendingRequests s i)"

text \<open>The part of \<open>handleMainMessage\<close> for a message no pending entry matches.\<close>

definition unsolicited :: "LGResponse \<Rightarrow> state \<Rightarrow> state" where
  "unsolicited resp s =
     (case resp_payload resp of
        None \<Rightarrow> s
      | Some p \<Rightarrow>
          (let s1 = (case map_of p ''appId'' of
                       Some v \<Rightarrow> notify (s\<lparr>currentApp := v\<rparr>)
                     | None \<Rightarrow> s)
           in case map_of p ''volume'' of
                Some v \<Rightarrow> notify (s1\<lparr>volume := v, muted := coalesce_muted p (muted s1)\<rparr>)
              | None \<Rightarrow> s1))"

text \<open>\<open>handleMainMessage\<close>. The argument is the result of \<open>JSON.parse\<close>, \<open>None\<close> when it
  throws; the \<open>catch\<close> then only writes to the console.\<close>

definition handleMainMessage :: "LGResponse option \<Rightarrow> state \<Rightarrow> state" where
  "handleMainMessage data s =
     (case data of
        None \<Rightarrow> s
      | Some resp \<Rightarrow>
          (case lookup_handler s resp of
             Some handler \<Rightarrow>
               (let i = the (resp_id resp);
                    isSubscription = (i \<in> subscriptionIds s);
                    isRegistration = (registrationRequestId s = Some i);
                    s1 = (if \<not> isSubscription \<and> \<not> isRegistration
                          then s\<lparr>pendingRequests := (pendingRequests s)(i := None)\<rparr>
                          else if isRegistration \<and> registrationDone resp
                          then s\<lparr>pendingRequests := (pendingRequests s)(i := None),
                                 registrationRequestId := None\<rparr>
                          else s)
                in invoke handler resp s1)
           | None \<Rightarrow> unsolicited resp s))"

subsection \<open>Pointer commands\<close>

text \<open>\<open>Math.round\<close> on a finite number: the nearest integer, a tie going up.\<close>

definition js_round :: "real \<Rightarrow> int" where
  "js_round x = \<lfloor>x + 1 / 2\<rfloor>"

text \<open>\<open>Buffer.writeInt16LE\<close>: the two bytes, low byte first; \<open>None\<close> for the RangeError
  of a runtime that checks the range.\<close>

definition writeInt16LE :: "bool \<Rightarrow> int \<Rightarrow> 8 word list option" where
  "writeInt16LE chk v =
     (if chk \<and> (v < - 32768 \<or> 32767 < v) then None
      else Some [word_of_int v, word_of_int (v div 256)])"

definition moveMouse :: "real \<Rightarrow> real \<Rightarrow> state \<Rightarrow> state" where
  "moveMouse dx dy s =
     (case pointerWs s of
        None \<Rightarrow> s
      | Some p \<Rightarrow>
          if \<not> is_open s p then s
          else (case writeInt16LE (int16Checked s) (js_round dx) of
                  None \<Rightarrow> emit (CommandFailed ''RangeError'') s
                | Some bx \<Rightarrow>
                    (case writeInt16LE (int16Checked s) (js_round dy) of
                       None \<Rightarrow> emit (CommandFailed ''RangeError'') s
                     | Some by \<Rightarrow> emit (SentBytes p ([1, 0] @ bx @ by)) s)))"

definition click :: "state \<Rightarrow> state" where
  "click s =
     (case pointerWs s of
        None \<Rightarrow> s
      | Some p \<Rightarrow>
          if \<not> is_open s p then s
          else setTimeout ClickRelease (emit (SentBytes p [2, 1, 0, 0]) s))"

text \<open>The callback of the 50 millisecond timer of \<open>click\<close>; an exception of \<open>send\<close>
  has nobody to catch it.\<close>

definition click_release :: "state \<Rightarrow> state" where
  "click_release s =
     (case pointerWs s of
        None \<Rightarrow> s
      | Some p \<Rightarrow> (case send_bytes (Some p) [3, 1, 0, 0] s of Inl _ \<Rightarrow> s | Inr s1 \<Rightarrow> s1))"

subsection \<open>Commands on the main channel\<close>

definition command :: "request \<Rightarrow> state \<Rightarrow> state" where
  "command msg s =
     (if status s \<noteq> ready then emit (CommandFailed ''Not connected'') s
      else (case sendMain msg Command s of
              (Inl e, s1) \<Rightarrow> emit (CommandFailed e) s1
            | (Inr _, s1) \<Rightarrow> s1))"

definition sendButton :: "string \<Rightarrow> state \<Rightarrow> state" where
  "sendButton key s =
     command \<lparr>req_id = None, req_type = ''request'',
              req_uri = Some ''ssap://com.webos.service.networkinput/sendButton'',
              req_payload = Some [(''name'', JStr key)]\<rparr> s"

definition sendInput :: "string \<Rightarrow> state \<Rightarrow> state" where
  "sendInput text s =
     command \<lparr>req_id = None, req_type = ''request'',
              req_uri = Some ''ssap://com.webos.service.ime/sendText'',
              req_payload = Some [(''text'', JStr text), (''replace'', JNum 0)]\<rparr> s"

subsection \<open>Socket callbacks\<close>

definition onopen :: "nat \<Rightarrow> state \<Rightarrow> state" where
  "onopen h s = register h (setStatus pairing (clearTimeout (ConnectTimeout h) s))"

definition onerror :: "nat \<Rightarrow> string \<Rightarrow> state \<Rightarrow> state" where
  "onerror h details s =
     fail h (''WebSocket connection failed at '' @ ws_url (sockets s ! h) @ '': '' @ details) s"

definition onclose :: "nat \<Rightarrow> state \<Rightarrow> state" where
  "onclose h s =
     (let s1 = close_opt (pointerWs s) s;
          s2 = s1\<lparr>pointerWs := None\<rparr>
      in if \<not> ws_settled (sockets s2 ! h)
         then fail h (''Socket closed at '' @ ws_url (sockets s2 ! h)) s2
         else setStatus disconnected s2)"

definition connect_timeout :: "nat \<Rightarrow> state \<Rightarrow> state" where
  "connect_timeout h s = fail h (''Connection timed out at '' @ ws_url (sockets s ! h)) s"

subsection \<open>The event loop\<close>

datatype event =
    CallSetStatusCallback
  | CallConnect string
  | CallDisconnect
  | CallSendButton string
  | CallSendInput string
  | CallMoveMouse real real
  | CallClick
  | WsOpen nat
  | WsMessage nat "LGResponse option"
  | WsError nat string
  | WsClose nat
  | Timer timer

definition set_readyState :: "nat \<Rightarrow> readyState \<Rightarrow> state \<Rightarrow> state" where
  "set_readyState h r s = s\<lparr>sockets := (sockets s)[h := (sockets s ! h)\<lparr>ws_readyState := r\<rparr>]\<rparr>"

definition run_timer :: "timer \<Rightarrow> state \<Rightarrow> state" where
  "run_timer t s =
     (case t of
        ConnectTimeout h \<Rightarrow> connect_timeout h s
      | RegisterTimeout i h \<Rightarrow> register_timeout i h s
      | SendMainTimeout i c \<Rightarrow> sendMain_timeout i s
      | ClickRelease \<Rightarrow> click_release s)"

text \<open>
  One turn of the event loop. A socket event happens only to a socket that exists and is
  in a state where the event can occur: it opens while connecting, delivers a message
  while open, and reports an error or closes until it is closed. A timer fires only
  when it is scheduled, and then once. An event that cannot occur leaves the state as
  it is. The pointer socket has callbacks for \<open>error\<close> (console only) and \<open>close\<close>.
\<close>

definition step :: "event \<Rightarrow> state \<Rightarrow> state" where
  "step e s =
     (case e of
        CallSetStatusCallback \<Rightarrow> setStatusCallback s
      | CallConnect ip \<Rightarrow> connect ip s
      | CallDisconnect \<Rightarrow> disconnect s
      | CallSendButton key \<Rightarrow> sendButton key s
      | CallSendInput text \<Rightarrow> sendInput text s
      | CallMoveMouse dx dy \<Rightarrow> moveMouse dx dy s
      | CallClick \<Rightarrow> click s
      | WsOpen h \<Rightarrow>
          if h < length (sockets s) \<and> ws_readyState (sockets s ! h) = CONNECTING then
            (let s1 = set_readyState h OPEN s
             in if ws_pointer (sockets s ! h) then s1 else onopen h s1)
          else s
      | WsMessage h data \<Rightarrow>
          if is_open s h \<and> \<not> ws_pointer (sockets s ! h) then handleMainMessage data s else s
      | WsError h details \<Rightarrow>
          if h < length (sockets s) \<and> ws_readyState (sockets s ! h) \<noteq> CLOSED
             \<and> \<not> ws_pointer (sockets s ! h)
          then onerror h details s else s
      | WsClose h \<Rightarrow>
          if h < length (sockets s) \<and> ws_readyState (sockets s ! h) \<noteq> CLOSED then
            (let s1 = set_readyState h CLOSED s
             in if ws_pointer (sockets s ! h) then s1\<lparr>pointerWs := None\<rparr> else onclose h s1)
          else s
      | Timer t \<Rightarrow>
          if t \<in> set (timers s) then run_timer t (s\<lparr>timers := remove1 t (timers s)\<rparr>) else s)"

fun run :: "event list \<Rightarrow> state \<Rightarrow> state" where
  "run [] s = s"
| "run (e # es) s = run es (step e s)"

subsection \<open>Sample messages and environments\<close>

text \<open>A television that answers the handshake, hands out a pointer socket and reports
  the foreground application and the volume; used to reach concrete states.\<close>

definition msg_registered :: "string \<Rightarrow> LGResponse" where
  "msg_registered i = \<lparr>resp_id = Some i, resp_type = ''registered'', resp_payload = None, resp_error = None\<rparr>"

definition msg_response :: "string \<Rightarrow> jsobj \<Rightarrow> LGResponse" where
  "msg_response i p = \<lparr>resp_id = Some i, resp_type = ''response'', resp_payload = Some p, resp_error = None\<rparr>"

definition msg_error :: "string \<Rightarrow> string \<Rightarrow> LGResponse" where
  "msg_error i e = \<lparr>resp_id = Some i, resp_type = ''error'', resp_payload = None, resp_error = Some e\<rparr>"

definition fresh :: "TVConfig option \<Rightarrow> state" where
  "fresh cfg = initial cfg True (\<lambda>_. None) True []"

text \<open>A session with the television at 10.0.0.5: paired, both subscriptions answered
  once, the pointer socket open.\<close>

definition session :: "event list" where
  "session =
     [CallSetStatusCallback, CallConnect ''10.0.0.5'', WsOpen 0,
      WsMessage 0 (Some (msg_registered ''msg_1'')),
      WsMessage 0 (Some (msg_response ''msg_2'' [(''socketPath'', JStr ''ws://10.0.0.5:3000/p'')])),
      WsOpen 1,
      WsMessage 0 (Some (msg_response ''msg_3'' [(''appId'', JStr ''netflix'')])),
      WsMessage 0 (Some (msg_response ''msg_4'' [(''volume'', JNum 12), (''muted'', JBool False)]))]"

subsection \<open>Notions used in the statements\<close>

text \<open>\<open>resp.payload?.[k]\<close>: the field of the payload, if there is a payload with it.\<close>

definition payload_field :: "LGResponse \<Rightarrow> string \<Rightarrow> json option" where
  "payload_field resp k = (case resp_payload resp of None \<Rightarrow> None | Some p \<Rightarrow> map_of p k)"

text \<open>The effects a callback added, given the state before and after it.\<close>

definition added :: "state \<Rightarrow> state \<Rightarrow> effect list" where
  "added s s' = drop (length (effects s)) (effects s')"

text \<open>The identifiers handed out so far.\<close>

definition old_id :: "state \<Rightarrow> string \<Rightarrow> bool" where
  "old_id s i = (\<exists>k \<le> msgId s. i = ''msg_'' @ show_nat k)"

text \<open>The effects that settle the promise of the request sent under an identifier, and
  the identifiers that have a \<open>sendMain\<close> timer running.\<close>

fun settles :: "string \<Rightarrow> effect \<Rightarrow> bool" where
  "settles i (Resolved j _) = (i = j)"
| "settles i (Rejected j _) = (i = j)"
| "settles i _ = False"

fun is_settle :: "effect \<Rightarrow> bool" where
  "is_settle (Resolved _ _) = True"
| "is_settle (Rejected _ _) = True"
| "is_settle _ = False"

definition sett :: "state \<Rightarrow> effect list" where
  "sett s = filter is_settle (effects s)"

definition smt :: "state \<Rightarrow> string set" where
  "smt s = {i. \<exists>c. SendMainTimeout i c \<in> set (timers s)}"

text \<open>The part of the state the correlator lives on.\<close>

definition core ::
  "state \<Rightarrow> (string \<rightharpoonup> handler) \<times> string set \<times> string option \<times> nat \<times> string set \<times> effect list" where
  "core s = (pendingRequests s, subscriptionIds s, registrationRequestId s, msgId s, smt s, sett s)"

text \<open>
  What holds of the correlator in every state the event loop can reach: every identifier
  in use has been handed out by \<open>nextId\<close>; a \<open>sendMain\<close> timer guards an entry of
  \<open>sendMain\<close> or none; the \<open>resolve\<close> of a \<open>sendMain\<close> promise sits under the
  identifier of its request, which is neither a subscription nor the registration and
  has not been settled; and no request has been settled twice.
\<close>

definition correlator_ok :: "state \<Rightarrow> bool" where
  "correlator_ok s \<longleftrightarrow>
     (\<forall>i x. pendingRequests s i = Some x \<longrightarrow> old_id s i)
     \<and> (\<forall>i. i \<in> subscriptionIds s \<longrightarrow> old_id s i)
     \<and> (\<forall>i. registrationRequestId s = Some i \<longrightarrow> old_id s i)
     \<and> (\<forall>i. i \<in> smt s \<longrightarrow>
            old_id s i \<and> (\<forall>x. pendingRequests s i = Some x \<longrightarrow> (\<exists>c. x = Resolver i c)))
     \<and> (\<forall>e i. e \<in> set (sett s) \<and> settles i e \<longrightarrow> old_id s i)
     \<and> (\<forall>i j c. pendingRequests s i = Some (Resolver j c) \<longrightarrow>
            j = i \<and> i \<notin> subscriptionIds s \<and> registrationRequestId s \<noteq> Some i
            \<and> filter (settles i) (sett s) = [])
     \<and> (\<forall>i. length (filter (settles i) (sett s)) \<le> 1)"

text \<open>The rejections of \<open>connect\<close> among the effects.\<close>

fun is_rej :: "effect \<Rightarrow> bool" where
  "is_rej (ConnectRejected _) = True"
| "is_rej _ = False"

definition rejs :: "state \<Rightarrow> effect list" where
  "rejs s = filter is_rej (effects s)"

text \<open>The entries of the array \<open>errors\<close> after the first endpoints of an address have
  failed with the given messages.\<close>

definition recorded :: "string \<Rightarrow> string list \<Rightarrow> string list" where
  "recorded ip ms = map (\<lambda>(wsUrl, message). wsUrl @ '' -> '' @ message) (zip (wsUrls ip) ms)"

text \<open>A point of the loop of \<open>connect\<close>: some endpoints of an address have failed and
  the others are still to be tried. An attempt that is awaited was started at such a
  point.\<close>

definition loop_ok :: "string list \<Rightarrow> string list \<Rightarrow> bool" where
  "loop_ok us errs =
     (\<exists>ip ms. length ms \<le> 3 \<and> us = drop (length ms) (wsUrls ip) \<and> errs = recorded ip ms)"

definition attempt_ok :: "ws \<Rightarrow> bool" where
  "attempt_ok w = (ws_settled w \<or> loop_ok (ws_url w # ws_rest w) (ws_errors w))"

definition sockets_ok :: "state \<Rightarrow> bool" where
  "sockets_ok s = list_all attempt_ok (sockets s)"

text \<open>The states reached from the start of the process by some sequence of events.\<close>

definition reachable :: "state \<Rightarrow> bool" where
  "reachable s = (\<exists>evs cfg w ctor chk hp. s = run evs (initial cfg w ctor chk hp))"

text \<open>
  What a timer of the correlator guards. The timer of a \<open>sendMain\<close> or of a
  \<open>register\<close> carries an identifier that has been handed out, and the entry under that
  identifier, if there still is one, is the entry made together with the timer. The
  other timers guard no entry.
\<close>

fun guarded :: "state \<Rightarrow> timer \<Rightarrow> bool" where
  "guarded s (SendMainTimeout i c) =
     (old_id s i \<and> (pendingRequests s i = None \<or> pendingRequests s i = Some (Resolver i c)))"
| "guarded s (RegisterTimeout i h) =
     (old_id s i \<and> (pendingRequests s i = None \<or> pendingRequests s i = Some (RegisterHandler h)))"
| "guarded s (ConnectTimeout h) = True"
| "guarded s ClickRelease = True"

text \<open>In every state the event loop can reach, each timer guards what it was set for,
  and the \<open>resolve\<close> of a \<open>sendMain\<close> promise that is still stored has its timer
  running.\<close>

definition guards_ok :: "state \<Rightarrow> bool" where
  "guards_ok s \<longleftrightarrow>
     (\<forall>t \<in> set (timers s). guarded s t)
     \<and> (\<forall>i c. pendingRequests s i = Some (Resolver i c) \<longrightarrow> SendMainTimeout i c \<in> set (timers s))"

text \<open>
  How the functions of the connection change the correlator, a callback that fires a
  timer apart: identifiers are only handed out; an entry under an identifier handed
  out before stays as it is, or is deleted if the identifier is among those the
  function may delete; a timer that was not scheduled before guards what it was set for;
  the timers of \<open>sendMain\<close> stay scheduled; and a new \<open>resolve\<close> comes with its timer.
\<close>

definition grows :: "string set \<Rightarrow> state \<Rightarrow> state \<Rightarrow> bool" where
  "grows D s s' \<longleftrightarrow>
     msgId s \<le> msgId s'
     \<and> (\<forall>i. old_id s i \<longrightarrow>
            pendingRequests s' i = pendingRequests s i \<or> (i \<in> D \<and> pendingRequests s' i = None))
     \<and> (\<forall>t \<in> set (timers s'). t \<in> set (timers s) \<or> guarded s' t)
     \<and> (\<forall>i c. SendMainTimeout i c \<in> set (timers s) \<longrightarrow> SendMainTimeout i c \<in> set (timers s'))
     \<and> (\<forall>i c. pendingRequests s' i = Some (Resolver i c) \<longrightarrow>
            pendingRequests s i = Some (Resolver i c) \<or> SendMainTimeout i c \<in> set (timers s'))"

text \<open>The identifiers whose entries the callback of an event may delete: all of them for
  \<open>disconnect\<close>, which \<open>connect\<close> may call, the one of the response for a message, and
  the one of the timer for a timer of the correlator.\<close>

fun deletes :: "event \<Rightarrow> string set" where
  "deletes CallDisconnect = UNIV"
| "deletes (CallConnect ip) = UNIV"
| "deletes (WsMessage h (Some resp)) = {i. resp_id resp = Some i}"
| "deletes (Timer (SendMainTimeout i c)) = {i}"
| "deletes (Timer (RegisterTimeout i h)) = {i}"
| "deletes e = {}"

text \<open>The events during which a request sent under an identifier goes on waiting, given
  the state in which they happen: all but a response that carries the identifier, the
  timer of the request, a call of \<open>disconnect\<close>, and a call of \<open>connect\<close> while a main
  socket is held, which calls \<open>disconnect\<close> first. A sequence of events lets the request
  wait when each of them does so in the state it happens in.\<close>

fun waits :: "string \<Rightarrow> state \<Rightarrow> event \<Rightarrow> bool" where
  "waits i s CallDisconnect = False"
| "waits i s (CallConnect ip) = (mainWs s = None)"
| "waits i s (WsMessage h (Some resp)) = (resp_id resp \<noteq> Some i)"
| "waits i s (Timer (SendMainTimeout j c)) = (j \<noteq> i)"
| "waits i s e = True"

fun waiting :: "string \<Rightarrow> event list \<Rightarrow> state \<Rightarrow> bool" where
  "waiting i [] s = True"
| "waiting i (e # es) s = (waits i s e \<and> waiting i es (step e s))"

text \<open>What the loop of \<open>connect\<close> does from a point it can be at: it leaves the attempts
  well formed, and it rejects at most once, then with three entries, as its last effect
  and with the status \<open>disconnected\<close>.\<close>

definition rejects_well :: "state \<Rightarrow> state \<Rightarrow> bool" where
  "rejects_well s s' \<longleftrightarrow>
     rejs s' = rejs s
     \<or> (\<exists>ip m1 m2 m3.
          rejs s' = rejs s @
            [ConnectRejected (''Failed to connect to TV. Attempts: '' @ join '' | ''
               [wsUrls ip ! 0 @ '' -> '' @ m1, wsUrls ip ! 1 @ '' -> '' @ m2,
                wsUrls ip ! 2 @ '' -> '' @ m3])]
          \<and> status s' = disconnected
          \<and> last (effects s') =
              ConnectRejected (''Failed to connect to TV. Attempts: '' @ join '' | ''
                [wsUrls ip ! 0 @ '' -> '' @ m1, wsUrls ip ! 1 @ '' -> '' @ m2,
                 wsUrls ip ! 2 @ '' -> '' @ m3]))"

section \<open>Properties\<close>

subsection \<open>The fields a callback leaves alone\<close>

text \<open>Each function of the model changes few fields of the state. The lemmas of this
  subsection list, function by function, the fields that keep their value.\<close>

lemma emit_keeps [simp]:
  "mainWs (emit e s) = mainWs s"
  "pointerWs (emit e s) = pointerWs s"
  "status (emit e s) = status s"
  "tvIp (emit e s) = tvIp s"
  "clientKey (emit e s) = clientKey s"
  "msgId (emit e s) = msgId s"
  "pendingRequests (emit e s) = pendingRequests s"
  "subscriptionIds (emit e s) = subscriptionIds s"
  "registrationRequestId (emit e s) = registrationRequestId s"
  "currentApp (emit e s) = currentApp s"
  "volume (emit e s) = volume s"
  "muted (emit e s) = muted s"
  "onStatusChange (emit e s) = onStatusChange s"
  "sockets (emit e s) = sockets s"
  "timers (emit e s) = timers s"
  "store (emit e s) = store s"
  "fsWritable (emit e s) = fsWritable s"
  "wsCtorError (emit e s) = wsCtorError s"
  "int16Checked (emit e s) = int16Checked s"
  "LG_HANDSHAKE_PAYLOAD (emit e s) = LG_HANDSHAKE_PAYLOAD s"
  by (simp_all add: emit_def)

lemma ws_close_keeps [simp]:
  "mainWs (ws_close h s) = mainWs s"
  "pointerWs (ws_close h s) = pointerWs s"
  "status (ws_close h s) = status s"
  "tvIp (ws_close h s) = tvIp s"
  "clientKey (ws_close h s) = clientKey s"
  "msgId (ws_close h s) = msgId s"
  "pendingRequests (ws_close h s) = pendingRequests s"
  "subscriptionIds (ws_close h s) = subscriptionIds s"
  "registrationRequestId (ws_close h s) = registrationRequestId s"
  "currentApp (ws_close h s) = currentApp s"
  "volume (ws_close h s) = volume s"
  "muted (ws_close h s) = muted s"
  "onStatusChange (ws_close h s) = onStatusChange s"
  "timers (ws_close h s) = timers s"
  "store (ws_close h s) = store s"
  "fsWritable (ws_close h s) = fsWritable s"
  "wsCtorError (ws_close h s) = wsCtorError s"
  "int16Checked (ws_close h s) = int16Checked s"
  "LG_HANDSHAKE_PAYLOAD (ws_close h s) = LG_HANDSHAKE_PAYLOAD s"
  "effects (ws_close h s) = effects s"
  by (simp_all add: ws_close_def)

lemma close_opt_keeps [simp]:
  "mainWs (close_opt w s) = mainWs s"
  "pointerWs (close_opt w s) = pointerWs s"
  "status (close_opt w s) = status s"
  "tvIp (close_opt w s) = tvIp s"
  "clientKey (close_opt w s) = clientKey s"
  "msgId (close_opt w s) = msgId s"
  "pendingRequests (close_opt w s) = pendingRequests s"
  "subscriptionIds (close_opt w s) = subscriptionIds s"
  "registrationRequestId (close_opt w s) = registrationRequestId s"
  "currentApp (close_opt w s) = currentApp s"
  "volume (close_opt w s) = volume s"
  "muted (close_opt w s) = muted s"
  "onStatusChange (close_opt w s) = onStatusChange s"
  "timers (close_opt w s) = timers s"
  "store (close_opt w s) = store s"
  "fsWritable (close_opt w s) = fsWritable s"
  "wsCtorError (close_opt w s) = wsCtorError s"
  "int16Checked (close_opt w s) = int16Checked s"
  "LG_HANDSHAKE_PAYLOAD (close_opt w s) = LG_HANDSHAKE_PAYLOAD s"
  "effects (close_opt w s) = effects s"
  by (simp_all add: close_opt_def split: option.splits)

lemma set_readyState_keeps [simp]:
  "mainWs (set_readyState h r s) = mainWs s"
  "pointerWs (set_readyState h r s) = pointerWs s"
  "status (set_readyState h r s) = status s"
  "tvIp (set_readyState h r s) = tvIp s"
  "clientKey (set_readyState h r s) = clientKey s"
  "msgId (set_readyState h r s) = msgId s"
  "pendingRequests (set_readyState h r s) = pendingRequests s"
  "subscriptionIds (set_readyState h r s) = subscriptionIds s"
  "registrationRequestId (set_readyState h r s) = registrationRequestId s"
  "currentApp (set_readyState h r s) = currentApp s"
  "volume (set_readyState h r s) = volume s"
  "muted (set_readyState h r s) = muted s"
  "onStatusChange (set_readyState h r s) = onStatusChange s"
  "timers (set_readyState h r s) = timers s"
  "store (set_readyState h r s) = store s"
  "fsWritable (set_readyState h r s) = fsWritable s"
  "wsCtorError (set_readyState h r s) = wsCtorError s"
  "int16Checked (set_readyState h r s) = int16Checked s"
  "LG_HANDSHAKE_PAYLOAD (set_readyState h r s) = LG_HANDSHAKE_PAYLOAD s"
  "effects (set_readyState h r s) = effects s"
  by (simp_all add: set_readyState_def)

lemma clearTimeout_keeps [simp]:
  "mainWs (clearTimeout t s) = mainWs s"
  "pointerWs (clearTimeout t s) = pointerWs s"
  "status (clearTimeout t s) = status s"
  "tvIp (clearTimeout t s) = tvIp s"
  "clientKey (clearTimeout t s) = clientKey s"
  "msgId (clearTimeout t s) = msgId s"
  "pendingRequests (clearTimeout t s) = pendingRequests s"
  "subscriptionIds (clearTimeout t s) = subscriptionIds s"
  "registrationRequestId (clearTimeout t s) = registrationRequestId s"
  "currentApp (clearTimeout t s) = currentApp s"
  "volume (clearTimeout t s) = volume s"
  "muted (clearTimeout t s) = muted s"
  "onStatusChange (clearTimeout t s) = onStatusChange s"
  "sockets (clearTimeout t s) = sockets s"
  "store (clearTimeout t s) = store s"
  "fsWritable (clearTimeout t s) = fsWritable s"
  "wsCtorError (clearTimeout t s) = wsCtorError s"
  "int16Checked (clearTimeout t s) = int16Checked s"
  "LG_HANDSHAKE_PAYLOAD (clearTimeout t s) = LG_HANDSHAKE_PAYLOAD s"
  "effects (clearTimeout t s) = effects s"
  by (simp_all add: clearTimeout_def)

lemma setTimeout_keeps [simp]:
  "mainWs (setTimeout t s) = mainWs s"
  "pointerWs (setTimeout t s) = pointerWs s"
  "status (setTimeout t s) = status s"
  "tvIp (setTimeout t s) = tvIp s"
  "clientKey (setTimeout t s) = clientKey s"
  "msgId (setTimeout t s) = msgId s"
  "pendingRequests (setTimeout t s) = pendingRequests s"
  "subscriptionIds (setTimeout t s) = subscriptionIds s"
  "registrationRequestId (setTimeout t s) = registrationRequestId s"
  "currentApp (setTimeout t s) = currentApp s"
  "volume (setTimeout t s) = volume s"
  "muted (setTimeout t s) = muted s"
  "onStatusChange (setTimeout t s) = onStatusChange s"
  "sockets (setTimeout t s) = sockets s"
  "store (setTimeout t s) = store s"
  "fsWritable (setTimeout t s) = fsWritable s"
  "wsCtorError (setTimeout t s) = wsCtorError s"
  "int16Checked (setTimeout t s) = int16Checked s"
  "LG_HANDSHAKE_PAYLOAD (setTimeout t s) = LG_HANDSHAKE_PAYLOAD s"
  "effects (setTimeout t s) = effects s"
  by (simp_all add: setTimeout_def)

lemma setStatusCallback_keeps [simp]:
  "mainWs (setStatusCallback s) = mainWs s"
  "pointerWs (setStatusCallback s) = pointerWs s"
  "status (setStatusCallback s) = status s"
  "tvIp (setStatusCallback s) = tvIp s"
  "clientKey (setStatusCallback s) = clientKey s"
  "msgId (setStatusCallback s) = msgId s"
  "pendingRequests (setStatusCallback s) = pendingRequests s"
  "subscriptionIds (setStatusCallback s) = subscriptionIds s"
  "registrationRequestId (setStatusCallback s) = registrationRequestId s"
  "currentApp (setStatusCallback s) = currentApp s"
  "volume (setStatusCallback s) = volume s"
  "muted (setStatusCallback s) = muted s"
  "sockets (setStatusCallback s) = sockets s"
  "timers (setStatusCallback s) = timers s"
  "store (setStatusCallback s) = store s"
  "fsWritable (setStatusCallback s) = fsWritable s"
  "wsCtorError (setStatusCallback s) = wsCtorError s"
  "int16Checked (setStatusCallback s) = int16Checked s"
  "LG_HANDSHAKE_PAYLOAD (setStatusCallback s) = LG_HANDSHAKE_PAYLOAD s"
  "effects (setStatusCallback s) = effects s"
  by (simp_all add: setStatusCallback_def)

lemma notify_keeps [simp]:
  "mainWs (notify s) = mainWs s"
  "pointerWs (notify s) = pointerWs s"
  "status (notify s) = status s"
  "tvIp (notify s) = tvIp s"
  "clientKey (notify s) = clientKey s"
  "msgId (notify s) = msgId s"
  "pendingRequests (notify s) = pendingRequests s"
  "subscriptionIds (notify s) = subscriptionIds s"
  "registrationRequestId (notify s) = registrationRequestId s"
  "currentApp (notify s) = currentApp s"
  "volume (notify s) = volume s"
  "muted (notify s) = muted s"
  "onStatusChange (notify s) = onStatusChange s"
  "sockets (notify s) = sockets s"
  "timers (notify s) = timers s"
  "store (notify s) = store s"
  "fsWritable (notify s) = fsWritable s"
  "wsCtorError (notify s) = wsCtorError s"
  "int16Checked (notify s) = int16Checked s"
  "LG_HANDSHAKE_PAYLOAD (notify s) = LG_HANDSHAKE_PAYLOAD s"
  by (simp_all add: notify_def)

lemma setStatus_keeps [simp]:
  "mainWs (setStatus x s) = mainWs s"
  "pointerWs (setStatus x s) = pointerWs s"
  "tvIp (setStatus x s) = tvIp s"
  "clientKey (setStatus x s) = clientKey s"
  "msgId (setStatus x s) = msgId s"
  "pendingRequests (setStatus x s) = pendingRequests s"
  "subscriptionIds (setStatus x s) = subscriptionIds s"
  "registrationRequestId (setStatus x s) = registrationRequestId s"
  "currentApp (setStatus x s) = currentApp s"
  "volume (setStatus x s) = volume s"
  "muted (setStatus x s) = muted s"
  "onStatusChange (setStatus x s) = onStatusChange s"
  "sockets (setStatus x s) = sockets s"
  "timers (setStatus x s) = timers s"
  "store (setStatus x s) = store s"
  "fsWritable (setStatus x s) = fsWritable s"
  "wsCtorError (setStatus x s) = wsCtorError s"
  "int16Checked (setStatus x s) = int16Checked s"
  "LG_HANDSHAKE_PAYLOAD (setStatus x s) = LG_HANDSHAKE_PAYLOAD s"
  by (simp_all add: setStatus_def)

lemma saveConfig_keeps [simp]:
  "mainWs (saveConfig s) = mainWs s"
  "pointerWs (saveConfig s) = pointerWs s"
  "status (saveConfig s) = status s"
  "tvIp (saveConfig s) = tvIp s"
  "clientKey (saveConfig s) = clientKey s"
  "msgId (saveConfig s) = msgId s"
  "pendingRequests (saveConfig s) = pendingRequests s"
  "subscriptionIds (saveConfig s) = subscriptionIds s"
  "registrationRequestId (saveConfig s) = registrationRequestId s"
  "currentApp (saveConfig s) = currentApp s"
  "volume (saveConfig s) = volume s"
  "muted (saveConfig s) = muted s"
  "onStatusChange (saveConfig s) = onStatusChange s"
  "sockets (saveConfig s) = sockets s"
  "timers (saveConfig s) = timers s"
  "fsWritable (saveConfig s) = fsWritable s"
  "wsCtorError (saveConfig s) = wsCtorError s"
  "int16Checked (saveConfig s) = int16Checked s"
  "LG_HANDSHAKE_PAYLOAD (saveConfig s) = LG_HANDSHAKE_PAYLOAD s"
  "effects (saveConfig s) = effects s"
  by (simp_all add: saveConfig_def split: option.splits)

lemma sendMain_keeps [simp]:
  "mainWs (snd (sendMain m c s)) = mainWs s"
  "pointerWs (snd (sendMain m c s)) = pointerWs s"
  "status (snd (sendMain m c s)) = status s"
  "tvIp (snd (sendMain m c s)) = tvIp s"
  "clientKey (snd (sendMain m c s)) = clientKey s"
  "subscriptionIds (snd (sendMain m c s)) = subscriptionIds s"
  "registrationRequestId (snd (sendMain m c s)) = registrationRequestId s"
  "currentApp (snd (sendMain m c s)) = currentApp s"
  "volume (snd (sendMain m c s)) = volume s"
  "muted (snd (sendMain m c s)) = muted s"
  "onStatusChange (snd (sendMain m c s)) = onStatusChange s"
  "sockets (snd (sendMain m c s)) = sockets s"
  "store (snd (sendMain m c s)) = store s"
  "fsWritable (snd (sendMain m c s)) = fsWritable s"
  "wsCtorError (snd (sendMain m c s)) = wsCtorError s"
  "int16Checked (snd (sendMain m c s)) = int16Checked s"
  "LG_HANDSHAKE_PAYLOAD (snd (sendMain m c s)) = LG_HANDSHAKE_PAYLOAD s"
  by (simp_all add: sendMain_def nextId_def Let_def split: option.splits prod.splits)

lemma sendMain_timeout_keeps [simp]:
  "mainWs (sendMain_timeout i s) = mainWs s"
  "pointerWs (sendMain_timeout i s) = pointerWs s"
  "status (sendMain_timeout i s) = status s"
  "tvIp (sendMain_timeout i s) = tvIp s"
  "clientKey (sendMain_timeout i s) = clientKey s"
  "msgId (sendMain_timeout i s) = msgId s"
  "subscriptionIds (sendMain_timeout i s) = subscriptionIds s"
  "registrationRequestId (sendMain_timeout i s) = registrationRequestId s"
  "currentApp (sendMain_timeout i s) = currentApp s"
  "volume (sendMain_timeout i s) = volume s"
  "muted (sendMain_timeout i s) = muted s"
  "onStatusChange (sendMain_timeout i s) = onStatusChange s"
  "sockets (sendMain_timeout i s) = sockets s"
  "timers (sendMain_timeout i s) = timers s"
  "store (sendMain_timeout i s) = store s"
  "fsWritable (sendMain_timeout i s) = fsWritable s"
  "wsCtorError (sendMain_timeout i s) = wsCtorError s"
  "int16Checked (sendMain_timeout i s) = int16Checked s"
  "LG_HANDSHAKE_PAYLOAD (sendMain_timeout i s) = LG_HANDSHAKE_PAYLOAD s"
  by (simp_all add: sendMain_timeout_def)

lemma connect_catch_keeps [simp]:
  "status (connect_catch s) = status s"
  "tvIp (connect_catch s) = tvIp s"
  "clientKey (connect_catch s) = clientKey s"
  "msgId (connect_catch s) = msgId s"
  "pendingRequests (connect_catch s) = pendingRequests s"
  "subscriptionIds (connect_catch s) = subscriptionIds s"
  "registrationRequestId (connect_catch s) = registrationRequestId s"
  "currentApp (connect_catch s) = currentApp s"
  "volume (connect_catch s) = volume s"
  "muted (connect_catch s) = muted s"
  "onStatusChange (connect_catch s) = onStatusChange s"
  "timers (connect_catch s) = timers s"
  "store (connect_catch s) = store s"
  "fsWritable (connect_catch s) = fsWritable s"
  "wsCtorError (connect_catch s) = wsCtorError s"
  "int16Checked (connect_catch s) = int16Checked s"
  "LG_HANDSHAKE_PAYLOAD (connect_catch s) = LG_HANDSHAKE_PAYLOAD s"
  "effects (connect_catch s) = effects s"
  by (simp_all add: connect_catch_def Let_def)

lemma connectWebSocket_keeps [simp]:
  "pointerWs (connectWebSocket u us errs s) = pointerWs s"
  "status (connectWebSocket u us errs s) = status s"
  "tvIp (connectWebSocket u us errs s) = tvIp s"
  "clientKey (connectWebSocket u us errs s) = clientKey s"
  "msgId (connectWebSocket u us errs s) = msgId s"
  "pendingRequests (connectWebSocket u us errs s) = pendingRequests s"
  "subscriptionIds (connectWebSocket u us errs s) = subscriptionIds s"
  "registrationRequestId (connectWebSocket u us errs s) = registrationRequestId s"
  "currentApp (connectWebSocket u us errs s) = currentApp s"
  "volume (connectWebSocket u us errs s) = volume s"
  "muted (connectWebSocket u us errs s) = muted s"
  "onStatusChange (connectWebSocket u us errs s) = onStatusChange s"
  "store (connectWebSocket u us errs s) = store s"
  "fsWritable (connectWebSocket u us errs s) = fsWritable s"
  "wsCtorError (connectWebSocket u us errs s) = wsCtorError s"
  "int16Checked (connectWebSocket u us errs s) = int16Checked s"
  "LG_HANDSHAKE_PAYLOAD (connectWebSocket u us errs s) = LG_HANDSHAKE_PAYLOAD s"
  "effects (connectWebSocket u us errs s) = effects s"
  by (simp_all add: connectWebSocket_def Let_def)

lemma connect_loop_keeps [simp]:
  "tvIp (connect_loop us errs s) = tvIp s"
  "clientKey (connect_loop us errs s) = clientKey s"
  "msgId (connect_loop us errs s) = msgId s"
  "pendingRequests (connect_loop us errs s) = pendingRequests s"
  "subscriptionIds (connect_loop us errs s) = subscriptionIds s"
  "registrationRequestId (connect_loop us errs s) = registrationRequestId s"
  "currentApp (connect_loop us errs s) = currentApp s"
  "volume (connect_loop us errs s) = volume s"
  "muted (connect_loop us errs s) = muted s"
  "onStatusChange (connect_loop us errs s) = onStatusChange s"
  "store (connect_loop us errs s) = store s"
  "fsWritable (connect_loop us errs s) = fsWritable s"
  "wsCtorError (connect_loop us errs s) = wsCtorError s"
  "int16Checked (connect_loop us errs s) = int16Checked s"
  "LG_HANDSHAKE_PAYLOAD (connect_loop us errs s) = LG_HANDSHAKE_PAYLOAD s"
  by (induction us arbitrary: errs s; simp add: Let_def split: option.splits)+

lemma fail_keeps [simp]:
  "tvIp (fail h m s) = tvIp s"
  "clientKey (fail h m s) = clientKey s"
  "msgId (fail h m s) = msgId s"
  "pendingRequests (fail h m s) = pendingRequests s"
  "subscriptionIds (fail h m s) = subscriptionIds s"
  "registrationRequestId (fail h m s) = registrationRequestId s"
  "currentApp (fail h m s) = currentApp s"
  "volume (fail h m s) = volume s"
  "muted (fail h m s) = muted s"
  "onStatusChange (fail h m s) = onStatusChange s"
  "store (fail h m s) = store s"
  "fsWritable (fail h m s) = fsWritable s"
  "wsCtorError (fail h m s) = wsCtorError s"
  "int16Checked (fail h m s) = int16Checked s"
  "LG_HANDSHAKE_PAYLOAD (fail h m s) = LG_HANDSHAKE_PAYLOAD s"
  by (simp_all add: fail_def Let_def)

lemma succeed_keeps [simp]:
  "mainWs (succeed h s) = mainWs s"
  "pointerWs (succeed h s) = pointerWs s"
  "status (succeed h s) = status s"
  "tvIp (succeed h s) = tvIp s"
  "clientKey (succeed h s) = clientKey s"
  "msgId (succeed h s) = msgId s"
  "pendingRequests (succeed h s) = pendingRequests s"
  "subscriptionIds (succeed h s) = subscriptionIds s"
  "registrationRequestId (succeed h s) = registrationRequestId s"
  "currentApp (succeed h s) = currentApp s"
  "volume (succeed h s) = volume s"
  "muted (succeed h s) = muted s"
  "onStatusChange (succeed h s) = onStatusChange s"
  "timers (succeed h s) = timers s"
  "store (succeed h s) = store s"
  "fsWritable (succeed h s) = fsWritable s"
  "wsCtorError (succeed h s) = wsCtorError s"
  "int16Checked (succeed h s) = int16Checked s"
  "LG_HANDSHAKE_PAYLOAD (succeed h s) = LG_HANDSHAKE_PAYLOAD s"
  by (simp_all add: succeed_def)

lemma disconnect_keeps [simp]:
  "tvIp (disconnect s) = tvIp s"
  "clientKey (disconnect s) = clientKey s"
  "msgId (disconnect s) = msgId s"
  "onStatusChange (disconnect s) = onStatusChange s"
  "timers (disconnect s) = timers s"
  "store (disconnect s) = store s"
  "fsWritable (disconnect s) = fsWritable s"
  "wsCtorError (disconnect s) = wsCtorError s"
  "int16Checked (disconnect s) = int16Checked s"
  "LG_HANDSHAKE_PAYLOAD (disconnect s) = LG_HANDSHAKE_PAYLOAD s"
  by (simp_all add: disconnect_def Let_def)

lemma connect_keeps [simp]:
  "msgId (connect a s) = msgId s"
  "onStatusChange (connect a s) = onStatusChange s"
  "store (connect a s) = store s"
  "fsWritable (connect a s) = fsWritable s"
  "wsCtorError (connect a s) = wsCtorError s"
  "int16Checked (connect a s) = int16Checked s"
  "LG_HANDSHAKE_PAYLOAD (connect a s) = LG_HANDSHAKE_PAYLOAD s"
  by (simp_all add: connect_def loadConfig_def Let_def split: option.splits)

lemma setupPointerSocket_keeps [simp]:
  "mainWs (setupPointerSocket s) = mainWs s"
  "pointerWs (setupPointerSocket s) = pointerWs s"
  "status (setupPointerSocket s) = status s"
  "tvIp (setupPointerSocket s) = tvIp s"
  "clientKey (setupPointerSocket s) = clientKey s"
  "subscriptionIds (setupPointerSocket s) = subscriptionIds s"
  "registrationRequestId (setupPointerSocket s) = registrationRequestId s"
  "currentApp (setupPointerSocket s) = currentApp s"
  "volume (setupPointerSocket s) = volume s"
  "muted (setupPointerSocket s) = muted s"
  "onStatusChange (setupPointerSocket s) = onStatusChange s"
  "sockets (setupPointerSocket s) = sockets s"
  "store (setupPointerSocket s) = store s"
  "fsWritable (setupPointerSocket s) = fsWritable s"
  "wsCtorError (setupPointerSocket s) = wsCtorError s"
  "int16Checked (setupPointerSocket s) = int16Checked s"
  "LG_HANDSHAKE_PAYLOAD (setupPointerSocket s) = LG_HANDSHAKE_PAYLOAD s"
  by (simp_all add: setupPointerSocket_def)

lemma setupPointerSocket_resume_keeps [simp]:
  "mainWs (setupPointerSocket_resume r s) = mainWs s"
  "status (setupPointerSocket_resume r s) = status s"
  "tvIp (setupPointerSocket_resume r s) = tvIp s"
  "clientKey (setupPointerSocket_resume r s) = clientKey s"
  "msgId (setupPointerSocket_resume r s) = msgId s"
  "pendingRequests (setupPointerSocket_resume r s) = pendingRequests s"
  "subscriptionIds (setupPointerSocket_resume r s) = subscriptionIds s"
  "registrationRequestId (setupPointerSocket_resume r s) = registrationRequestId s"
  "currentApp (setupPointerSocket_resume r s) = currentApp s"
  "volume (setupPointerSocket_resume r s) = volume s"
  "muted (setupPointerSocket_resume r s) = muted s"
  "onStatusChange (setupPointerSocket_resume r s) = onStatusChange s"
  "timers (setupPointerSocket_resume r s) = timers s"
  "store (setupPointerSocket_resume r s) = store s"
  "fsWritable (setupPointerSocket_resume r s) = fsWritable s"
  "wsCtorError (setupPointerSocket_resume r s) = wsCtorError s"
  "int16Checked (setupPointerSocket_resume r s) = int16Checked s"
  "LG_HANDSHAKE_PAYLOAD (setupPointerSocket_resume r s) = LG_HANDSHAKE_PAYLOAD s"
  "effects (setupPointerSocket_resume r s) = effects s"
  by (simp_all add: setupPointerSocket_resume_def split: option.splits json.splits)

lemma subscribeToStatus_keeps [simp]:
  "mainWs (subscribeToStatus s) = mainWs s"
  "pointerWs (subscribeToStatus s) = pointerWs s"
  "status (subscribeToStatus s) = status s"
  "tvIp (subscribeToStatus s) = tvIp s"
  "clientKey (subscribeToStatus s) = clientKey s"
  "registrationRequestId (subscribeToStatus s) = registrationRequestId s"
  "currentApp (subscribeToStatus s) = currentApp s"
  "volume (subscribeToStatus s) = volume s"
  "muted (subscribeToStatus s) = muted s"
  "onStatusChange (subscribeToStatus s) = onStatusChange s"
  "sockets (subscribeToStatus s) = sockets s"
  "timers (subscribeToStatus s) = timers s"
  "store (subscribeToStatus s) = store s"
  "fsWritable (subscribeToStatus s) = fsWritable s"
  "wsCtorError (subscribeToStatus s) = wsCtorError s"
  "int16Checked (subscribeToStatus s) = int16Checked s"
  "LG_HANDSHAKE_PAYLOAD (subscribeToStatus s) = LG_HANDSHAKE_PAYLOAD s"
  by (simp_all add: subscribeToStatus_def nextId_def send_json_def Let_def split: option.splits)

lemma foregroundApp_handler_keeps [simp]:
  "mainWs (foregroundApp_handler r s) = mainWs s"
  "pointerWs (foregroundApp_handler r s) = pointerWs s"
  "status (foregroundApp_handler r s) = status s"
  "tvIp (foregroundApp_handler r s) = tvIp s"
  "clientKey (foregroundApp_handler r s) = clientKey s"
  "msgId (foregroundApp_handler r s) = msgId s"
  "pendingRequests (foregroundApp_handler r s) = pendingRequests s"
  "subscriptionIds (foregroundApp_handler r s) = subscriptionIds s"
  "registrationRequestId (foregroundApp_handler r s) = registrationRequestId s"
  "volume (foregroundApp_handler r s) = volume s"
  "muted (foregroundApp_handler r s) = muted s"
  "onStatusChange (foregroundApp_handler r s) = onStatusChange s"
  "sockets (foregroundApp_handler r s) = sockets s"
  "timers (foregroundApp_handler r s) = timers s"
  "store (foregroundApp_handler r s) = store s"
  "fsWritable (foregroundApp_handler r s) = fsWritable s"
  "wsCtorError (foregroundApp_handler r s) = wsCtorError s"
  "int16Checked (foregroundApp_handler r s) = int16Checked s"
  "LG_HANDSHAKE_PAYLOAD (foregroundApp_handler r s) = LG_HANDSHAKE_PAYLOAD s"
  by (simp_all add: foregroundApp_handler_def split: option.splits)

lemma volume_handler_keeps [simp]:
  "mainWs (volume_handler r s) = mainWs s"
  "pointerWs (volume_handler r s) = pointerWs s"
  "status (volume_handler r s) = status s"
  "tvIp (volume_handler r s) = tvIp s"
  "clientKey (volume_handler r s) = clientKey s"
  "msgId (volume_handler r s) = msgId s"
  "pendingRequests (volume_handler r s) = pendingRequests s"
  "subscriptionIds (volume_handler r s) = subscriptionIds s"
  "registrationRequestId (volume_handler r s) = registrationRequestId s"
  "currentApp (volume_handler r s) = currentApp s"
  "onStatusChange (volume_handler r s) = onStatusChange s"
  "sockets (volume_handler r s) = sockets s"
  "timers (volume_handler r s) = timers s"
  "store (volume_handler r s) = store s"
  "fsWritable (volume_handler r s) = fsWritable s"
  "wsCtorError (volume_handler r s) = wsCtorError s"
  "int16Checked (volume_handler r s) = int16Checked s"
  "LG_HANDSHAKE_PAYLOAD (volume_handler r s) = LG_HANDSHAKE_PAYLOAD s"
  by (simp_all add: volume_handler_def split: option.splits)

lemma register_keeps [simp]:
  "tvIp (register h s) = tvIp s"
  "clientKey (register h s) = clientKey s"
  "subscriptionIds (register h s) = subscriptionIds s"
  "currentApp (register h s) = currentApp s"
  "volume (register h s) = volume s"
  "muted (register h s) = muted s"
  "onStatusChange (register h s) = onStatusChange s"
  "store (register h s) = store s"
  "fsWritable (register h s) = fsWritable s"
  "wsCtorError (register h s) = wsCtorError s"
  "int16Checked (register h s) = int16Checked s"
  "LG_HANDSHAKE_PAYLOAD (register h s) = LG_HANDSHAKE_PAYLOAD s"
  by (simp_all add: register_def nextId_def send_json_def Let_def split: option.splits)

lemma register_handler_keeps [simp]:
  "tvIp (register_handler h r s) = tvIp s"
  "registrationRequestId (register_handler h r s) = registrationRequestId s"
  "currentApp (register_handler h r s) = currentApp s"
  "volume (register_handler h r s) = volume s"
  "muted (register_handler h r s) = muted s"
  "onStatusChange (register_handler h r s) = onStatusChange s"
  "fsWritable (register_handler h r s) = fsWritable s"
  "wsCtorError (register_handler h r s) = wsCtorError s"
  "int16Checked (register_handler h r s) = int16Checked s"
  "LG_HANDSHAKE_PAYLOAD (register_handler h r s) = LG_HANDSHAKE_PAYLOAD s"
  by (simp_all add: register_handler_def Let_def split: option.splits)

lemma register_timeout_keeps [simp]:
  "tvIp (register_timeout i h s) = tvIp s"
  "clientKey (register_timeout i h s) = clientKey s"
  "msgId (register_timeout i h s) = msgId s"
  "subscriptionIds (register_timeout i h s) = subscriptionIds s"
  "currentApp (register_timeout i h s) = currentApp s"
  "volume (register_timeout i h s) = volume s"
  "muted (register_timeout i h s) = muted s"
  "onStatusChange (register_timeout i h s) = onStatusChange s"
  "store (register_timeout i h s) = store s"
  "fsWritable (register_timeout i h s) = fsWritable s"
  "wsCtorError (register_timeout i h s) = wsCtorError s"
  "int16Checked (register_timeout i h s) = int16Checked s"
  "LG_HANDSHAKE_PAYLOAD (register_timeout i h s) = LG_HANDSHAKE_PAYLOAD s"
  by (simp_all add: register_timeout_def)

lemma invoke_keeps [simp]:
  "tvIp (invoke x r s) = tvIp s"
  "registrationRequestId (invoke x r s) = registrationRequestId s"
  "onStatusChange (invoke x r s) = onStatusChange s"
  "fsWritable (invoke x r s) = fsWritable s"
  "wsCtorError (invoke x r s) = wsCtorError s"
  "int16Checked (invoke x r s) = int16Checked s"
  "LG_HANDSHAKE_PAYLOAD (invoke x r s) = LG_HANDSHAKE_PAYLOAD s"
  by (simp_all add: invoke_def Let_def split: handler.splits caller.splits)

lemma unsolicited_keeps [simp]:
  "mainWs (unsolicited r s) = mainWs s"
  "pointerWs (unsolicited r s) = pointerWs s"
  "status (unsolicited r s) = status s"
  "tvIp (unsolicited r s) = tvIp s"
  "clientKey (unsolicited r s) = clientKey s"
  "msgId (unsolicited r s) = msgId s"
  "pendingRequests (unsolicited r s) = pendingRequests s"
  "subscriptionIds (unsolicited r s) = subscriptionIds s"
  "registrationRequestId (unsolicited r s) = registrationRequestId s"
  "onStatusChange (unsolicited r s) = onStatusChange s"
  "sockets (unsolicited r s) = sockets s"
  "timers (unsolicited r s) = timers s"
  "store (unsolicited r s) = store s"
  "fsWritable (unsolicited r s) = fsWritable s"
  "wsCtorError (unsolicited r s) = wsCtorError s"
  "int16Checked (unsolicited r s) = int16Checked s"
  "LG_HANDSHAKE_PAYLOAD (unsolicited r s) = LG_HANDSHAKE_PAYLOAD s"
  by (simp_all add: unsolicited_def Let_def split: option.splits)

lemma handleMainMessage_keeps [simp]:
  "tvIp (handleMainMessage d s) = tvIp s"
  "onStatusChange (handleMainMessage d s) = onStatusChange s"
  "fsWritable (handleMainMessage d s) = fsWritable s"
  "wsCtorError (handleMainMessage d s) = wsCtorError s"
  "int16Checked (handleMainMessage d s) = int16Checked s"
  "LG_HANDSHAKE_PAYLOAD (handleMainMessage d s) = LG_HANDSHAKE_PAYLOAD s"
  by (simp_all add: handleMainMessage_def Let_def split: option.splits)

lemma moveMouse_keeps [simp]:
  "mainWs (moveMouse dx dy s) = mainWs s"
  "pointerWs (moveMouse dx dy s) = pointerWs s"
  "status (moveMouse dx dy s) = status s"
  "tvIp (moveMouse dx dy s) = tvIp s"
  "clientKey (moveMouse dx dy s) = clientKey s"
  "msgId (moveMouse dx dy s) = msgId s"
  "pendingRequests (moveMouse dx dy s) = pendingRequests s"
  "subscriptionIds (moveMouse dx dy s) = subscriptionIds s"
  "registrationRequestId (moveMouse dx dy s) = registrationRequestId s"
  "currentApp (moveMouse dx dy s) = currentApp s"
  "volume (moveMouse dx dy s) = volume s"
  "muted (moveMouse dx dy s) = muted s"
  "onStatusChange (moveMouse dx dy s) = onStatusChange s"
  "sockets (moveMouse dx dy s) = sockets s"
  "timers (moveMouse dx dy s) = timers s"
  "store (moveMouse dx dy s) = store s"
  "fsWritable (moveMouse dx dy s) = fsWritable s"
  "wsCtorError (moveMouse dx dy s) = wsCtorError s"
  "int16Checked (moveMouse dx dy s) = int16Checked s"
  "LG_HANDSHAKE_PAYLOAD (moveMouse dx dy s) = LG_HANDSHAKE_PAYLOAD s"
  by (simp_all add: moveMouse_def split: option.splits)

lemma click_keeps [simp]:
  "mainWs (click s) = mainWs s"
  "pointerWs (click s) = pointerWs s"
  "status (click s) = status s"
  "tvIp (click s) = tvIp s"
  "clientKey (click s) = clientKey s"
  "msgId (click s) = msgId s"
  "pendingRequests (click s) = pendingRequests s"
  "subscriptionIds (click s) = subscriptionIds s"
  "registrationRequestId (click s) = registrationRequestId s"
  "currentApp (click s) = currentApp s"
  "volume (click s) = volume s"
  "muted (click s) = muted s"
  "onStatusChange (click s) = onStatusChange s"
  "sockets (click s) = sockets s"
  "store (click s) = store s"
  "fsWritable (click s) = fsWritable s"
  "wsCtorError (click s) = wsCtorError s"
  "int16Checked (click s) = int16Checked s"
  "LG_HANDSHAKE_PAYLOAD (click s) = LG_HANDSHAKE_PAYLOAD s"
  by (simp_all add: click_def split: option.splits)

lemma click_release_keeps [simp]:
  "mainWs (click_release s) = mainWs s"
  "pointerWs (click_release s) = pointerWs s"
  "status (click_release s) = status s"
  "tvIp (click_release s) = tvIp s"
  "clientKey (click_release s) = clientKey s"
  "msgId (click_release s) = msgId s"
  "pendingRequests (click_release s) = pendingRequests s"
  "subscriptionIds (click_release s) = subscriptionIds s"
  "registrationRequestId (click_release s) = registrationRequestId s"
  "currentApp (click_release s) = currentApp s"
  "volume (click_release s) = volume s"
  "muted (click_release s) = muted s"
  "onStatusChange (click_release s) = onStatusChange s"
  "sockets (click_release s) = sockets s"
  "timers (click_release s) = timers s"
  "store (click_release s) = store s"
  "fsWritable (click_release s) = fsWritable s"
  "wsCtorError (click_release s) = wsCtorError s"
  "int16Checked (click_release s) = int16Checked s"
  "LG_HANDSHAKE_PAYLOAD (click_release s) = LG_HANDSHAKE_PAYLOAD s"
  by (simp_all add: click_release_def send_bytes_def split: option.splits)

lemma command_keeps [simp]:
  "mainWs (command m s) = mainWs s"
  "pointerWs (command m s) = pointerWs s"
  "status (command m s) = status s"
  "tvIp (command m s) = tvIp s"
  "clientKey (command m s) = clientKey s"
  "subscriptionIds (command m s) = subscriptionIds s"
  "registrationRequestId (command m s) = registrationRequestId s"
  "currentApp (command m s) = currentApp s"
  "volume (command m s) = volume s"
  "muted (command m s) = muted s"
  "onStatusChange (command m s) = onStatusChange s"
  "sockets (command m s) = sockets s"
  "store (command m s) = store s"
  "fsWritable (command m s) = fsWritable s"
  "wsCtorError (command m s) = wsCtorError s"
  "int16Checked (command m s) = int16Checked s"
  "LG_HANDSHAKE_PAYLOAD (command m s) = LG_HANDSHAKE_PAYLOAD s"
  by (simp_all add: command_def sendMain_def nextId_def Let_def split: option.splits prod.splits sum.splits)

lemma sendButton_keeps [simp]:
  "mainWs (sendButton k s) = mainWs s"
  "pointerWs (sendButton k s) = pointerWs s"
  "status (sendButton k s) = status s"
  "tvIp (sendButton k s) = tvIp s"
  "clientKey (sendButton k s) = clientKey s"
  "subscriptionIds (sendButton k s) = subscriptionIds s"
  "registrationRequestId (sendButton k s) = registrationRequestId s"
  "currentApp (sendButton k s) = currentApp s"
  "volume (sendButton k s) = volume s"
  "muted (sendButton k s) = muted s"
  "onStatusChange (sendButton k s) = onStatusChange s"
  "sockets (sendButton k s) = sockets s"
  "store (sendButton k s) = store s"
  "fsWritable (sendButton k s) = fsWritable s"
  "wsCtorError (sendButton k s) = wsCtorError s"
  "int16Checked (sendButton k s) = int16Checked s"
  "LG_HANDSHAKE_PAYLOAD (sendButton k s) = LG_HANDSHAKE_PAYLOAD s"
  by (simp_all add: sendButton_def)

lemma sendInput_keeps [simp]:
  "mainWs (sendInput k s) = mainWs s"
  "pointerWs (sendInput k s) = pointerWs s"
  "status (sendInput k s) = status s"
  "tvIp (sendInput k s) = tvIp s"
  "clientKey (sendInput k s) = clientKey s"
  "subscriptionIds (sendInput k s) = subscriptionIds s"
  "registrationRequestId (sendInput k s) = registrationRequestId s"
  "currentApp (sendInput k s) = currentApp s"
  "volume (sendInput k s) = volume s"
  "muted (sendInput k s) = muted s"
  "onStatusChange (sendInput k s) = onStatusChange s"
  "sockets (sendInput k s) = sockets s"
  "store (sendInput k s) = store s"
  "fsWritable (sendInput k s) = fsWritable s"
  "wsCtorError (sendInput k s) = wsCtorError s"
  "int16Checked (sendInput k s) = int16Checked s"
  "LG_HANDSHAKE_PAYLOAD (sendInput k s) = LG_HANDSHAKE_PAYLOAD s"
  by (simp_all add: sendInput_def)

lemma onopen_keeps [simp]:
  "tvIp (onopen h s) = tvIp s"
  "clientKey (onopen h s) = clientKey s"
  "subscriptionIds (onopen h s) = subscriptionIds s"
  "currentApp (onopen h s) = currentApp s"
  "volume (onopen h s) = volume s"
  "muted (onopen h s) = muted s"
  "onStatusChange (onopen h s) = onStatusChange s"
  "store (onopen h s) = store s"
  "fsWritable (onopen h s) = fsWritable s"
  "wsCtorError (onopen h s) = wsCtorError s"
  "int16Checked (onopen h s) = int16Checked s"
  "LG_HANDSHAKE_PAYLOAD (onopen h s) = LG_HANDSHAKE_PAYLOAD s"
  by (simp_all add: onopen_def)

lemma onerror_keeps [simp]:
  "tvIp (onerror h d s) = tvIp s"
  "clientKey (onerror h d s) = clientKey s"
  "msgId (onerror h d s) = msgId s"
  "pendingRequests (onerror h d s) = pendingRequests s"
  "subscriptionIds (onerror h d s) = subscriptionIds s"
  "registrationRequestId (onerror h d s) = registrationRequestId s"
  "currentApp (onerror h d s) = currentApp s"
  "volume (onerror h d s) = volume s"
  "muted (onerror h d s) = muted s"
  "onStatusChange (onerror h d s) = onStatusChange s"
  "store (onerror h d s) = store s"
  "fsWritable (onerror h d s) = fsWritable s"
  "wsCtorError (onerror h d s) = wsCtorError s"
  "int16Checked (onerror h d s) = int16Checked s"
  "LG_HANDSHAKE_PAYLOAD (onerror h d s) = LG_HANDSHAKE_PAYLOAD s"
  by (simp_all add: onerror_def)

lemma onclose_keeps [simp]:
  "tvIp (onclose h s) = tvIp s"
  "clientKey (onclose h s) = clientKey s"
  "msgId (onclose h s) = msgId s"
  "pendingRequests (onclose h s) = pendingRequests s"
  "subscriptionIds (onclose h s) = subscriptionIds s"
  "registrationRequestId (onclose h s) = registrationRequestId s"
  "currentApp (onclose h s) = currentApp s"
  "volume (onclose h s) = volume s"
  "muted (onclose h s) = muted s"
  "onStatusChange (onclose h s) = onStatusChange s"
  "store (onclose h s) = store s"
  "fsWritable (onclose h s) = fsWritable s"
  "wsCtorError (onclose h s) = wsCtorError s"
  "int16Checked (onclose h s) = int16Checked s"
  "LG_HANDSHAKE_PAYLOAD (onclose h s) = LG_HANDSHAKE_PAYLOAD s"
  by (simp_all add: onclose_def Let_def)

lemma connect_timeout_keeps [simp]:
  "tvIp (connect_timeout h s) = tvIp s"
  "clientKey (connect_timeout h s) = clientKey s"
  "msgId (connect_timeout h s) = msgId s"
  "pendingRequests (connect_timeout h s) = pendingRequests s"
  "subscriptionIds (connect_timeout h s) = subscriptionIds s"
  "registrationRequestId (connect_timeout h s) = registrationRequestId s"
  "currentApp (connect_timeout h s) = currentApp s"
  "volume (connect_timeout h s) = volume s"
  "muted (connect_timeout h s) = muted s"
  "onStatusChange (connect_timeout h s) = onStatusChange s"
  "store (connect_timeout h s) = store s"
  "fsWritable (connect_timeout h s) = fsWritable s"
  "wsCtorError (connect_timeout h s) = wsCtorError s"
  "int16Checked (connect_timeout h s) = int16Checked s"
  "LG_HANDSHAKE_PAYLOAD (connect_timeout h s) = LG_HANDSHAKE_PAYLOAD s"
  by (simp_all add: connect_timeout_def)

lemma run_timer_keeps [simp]:
  "tvIp (run_timer t s) = tvIp s"
  "clientKey (run_timer t s) = clientKey s"
  "msgId (run_timer t s) = msgId s"
  "subscriptionIds (run_timer t s) = subscriptionIds s"
  "currentApp (run_timer t s) = currentApp s"
  "volume (run_timer t s) = volume s"
  "muted (run_timer t s) = muted s"
  "onStatusChange (run_timer t s) = onStatusChange s"
  "store (run_timer t s) = store s"
  "fsWritable (run_timer t s) = fsWritable s"
  "wsCtorError (run_timer t s) = wsCtorError s"
  "int16Checked (run_timer t s) = int16Checked s"
  "LG_HANDSHAKE_PAYLOAD (run_timer t s) = LG_HANDSHAKE_PAYLOAD s"
  by (simp_all add: run_timer_def split: timer.splits)

subsection \<open>Disconnecting\<close>

text \<open>
  C8. \<open>disconnect()\<close> is idempotent. It has no failing branch, and a second call right
  after the first leaves everything a caller can see as the first call left it: the
  session state \<open>disconnected\<close>, no pending request, no subscription, no registration
  identifier, both transports null, the sockets as they were, and application, volume
  and mute cleared.
\<close>

theorem disconnect_idempotent:
  "status (disconnect (disconnect s)) = status (disconnect s)
   \<and> pendingRequests (disconnect (disconnect s)) = pendingRequests (disconnect s)
   \<and> subscriptionIds (disconnect (disconnect s)) = subscriptionIds (disconnect s)
   \<and> registrationRequestId (disconnect (disconnect s)) = registrationRequestId (disconnect s)
   \<and> mainWs (disconnect (disconnect s)) = mainWs (disconnect s)
   \<and> pointerWs (disconnect (disconnect s)) = pointerWs (disconnect s)
   \<and> sockets (disconnect (disconnect s)) = sockets (disconnect s)
   \<and> getStatus (disconnect (disconnect s)) = getStatus (disconnect s)
   \<and> status (disconnect s) = disconnected
   \<and> pendingRequests (disconnect s) = Map.empty
   \<and> subscriptionIds (disconnect s) = {}
   \<and> mainWs (disconnect s) = None \<and> pointerWs (disconnect s) = None
   \<and> currentApp (disconnect s) = JNull \<and> volume (disconnect s) = JNull
   \<and> muted (disconnect s) = JNull"
  by (simp add: disconnect_def Let_def setStatus_def notify_def emit_def close_opt_def
        ws_close_def getStatus_def split: option.splits)

lemma tvIp_connect: "tvIp (connect ip s) = Some ip"
  by (simp add: connect_def Let_def loadConfig_def split: option.splits)

text \<open>
  C10. With a listener registered, \<open>disconnect()\<close> emits exactly one notification. Its
  snapshot has the session state \<open>disconnected\<close> but still the application, volume
  and mute of the session that ends, since the fields are reset after the call of the
  listener. The address is not reset: \<open>getStatus()\<close> after the disconnect reports
  cleared fields and the address of the last \<open>connect\<close>.
\<close>

theorem disconnect_notifies_stale_snapshot:
  "onStatusChange s \<Longrightarrow>
     effects (disconnect s) =
       effects s @ [Notify \<lparr>st_status = disconnected, st_tvIp = tvIp s,
                            st_currentApp = currentApp s, st_volume = volume s,
                            st_muted = muted s\<rparr>]
     \<and> tvIp (disconnect s) = tvIp s
     \<and> getStatus (disconnect s) =
         \<lparr>st_status = disconnected, st_tvIp = tvIp s, st_currentApp = JNull,
          st_volume = JNull, st_muted = JNull\<rparr>
     \<and> st_tvIp (getStatus (disconnect (connect ip s))) = Some ip"
proof -
  assume "onStatusChange s"
  then have "effects (disconnect s) =
       effects s @ [Notify \<lparr>st_status = disconnected, st_tvIp = tvIp s,
                            st_currentApp = currentApp s, st_volume = volume s,
                            st_muted = muted s\<rparr>]"
    by (simp add: disconnect_def Let_def setStatus_def notify_def emit_def close_opt_def
          ws_close_def getStatus_def split: option.splits)
  moreover have "getStatus (disconnect s) =
         \<lparr>st_status = disconnected, st_tvIp = tvIp s, st_currentApp = JNull,
          st_volume = JNull, st_muted = JNull\<rparr>"
    by (simp add: disconnect_def Let_def setStatus_def notify_def emit_def close_opt_def
          ws_close_def getStatus_def split: option.splits)
  moreover have "st_tvIp (getStatus (disconnect (connect ip s))) = Some ip"
    by (simp add: getStatus_def tvIp_connect)
  ultimately show ?thesis
    by simp
qed

theorem disconnect_notifies_stale_snapshot_witness:
  "onStatusChange (run session (fresh None))
   \<and> last (effects (disconnect (run session (fresh None)))) =
       Notify \<lparr>st_status = disconnected, st_tvIp = Some ''10.0.0.5'',
               st_currentApp = JStr ''netflix'', st_volume = JNum 12,
               st_muted = JBool False\<rparr>
   \<and> getStatus (disconnect (run session (fresh None))) =
       \<lparr>st_status = disconnected, st_tvIp = Some ''10.0.0.5'', st_currentApp = JNull,
        st_volume = JNull, st_muted = JNull\<rparr>"
proof -
  have l: "onStatusChange (run session (fresh None))"
    by code_simp
  have f: "tvIp (run session (fresh None)) = Some ''10.0.0.5''"
          "currentApp (run session (fresh None)) = JStr ''netflix''"
          "volume (run session (fresh None)) = JNum 12"
          "muted (run session (fresh None)) = JBool False"
    by code_simp+
  from disconnect_notifies_stale_snapshot [OF l, of "''''"] l f show ?thesis
    by simp
qed

subsection \<open>Pointer motion\<close>


lemma js_round_nearest: "\<bar>real_of_int (js_round x) - x\<bar> \<le> 1 / 2"
  unfolding js_round_def by linarith

lemma word_cat_bytes:
  "(word_cat (word_of_int (v div 256) :: 8 word) (word_of_int v :: 8 word) :: 16 word) = word_of_int v"
proof -
  have d: "v div 256 = drop_bit 8 v"
    by (simp add: drop_bit_eq_div)
  show ?thesis
    unfolding d
    by (rule bit_word_eqI) (auto simp add: bit_word_cat_iff bit_word_of_int_iff bit_drop_bit_eq)
qed

lemma sint_int16: "- 32768 \<le> v \<Longrightarrow> v \<le> 32767 \<Longrightarrow> sint (word_of_int v :: 16 word) = v"
  by (simp add: sint_sbintrunc' signed_take_bit_int_eq_self)

lemma writeInt16LE_in_range:
  assumes "- 32768 \<le> v" "v \<le> 32767"
  shows "\<exists>lo hi. writeInt16LE chk v = Some [lo, hi] \<and> sint (word_cat hi lo :: 16 word) = v"
  using assms by (simp add: writeInt16LE_def word_cat_bytes sint_int16)

text \<open>
  C9, as the code has it. \<open>moveMouse\<close> does nothing, and reports nothing, when the
  pointer socket is absent or not open. When it is open and both deltas round (to the
  nearest integer, \<open>js_round\<close>) into the signed 16-bit range, it sends exactly one frame
  of six bytes \<open>1, 0, xl, xh, yl, yh\<close> whose byte pairs, read low byte first as signed
  16-bit numbers, are the rounded deltas. Outside that range no 16-bit encoding of the
  rounded delta exists, and the claim fails there.
\<close>

theorem moveMouse_frame:
  "(pointerWs s = None \<longrightarrow> moveMouse dx dy s = s)
   \<and> (\<forall>p. pointerWs s = Some p \<and> \<not> is_open s p \<longrightarrow> moveMouse dx dy s = s)
   \<and> (\<forall>p. pointerWs s = Some p \<and> is_open s p
           \<and> - 32768 \<le> js_round dx \<and> js_round dx \<le> 32767
           \<and> - 32768 \<le> js_round dy \<and> js_round dy \<le> 32767 \<longrightarrow>
         (\<exists>xl xh yl yh.
            moveMouse dx dy s = emit (SentBytes p [1, 0, xl, xh, yl, yh]) s
            \<and> effects (moveMouse dx dy s) = effects s @ [SentBytes p [1, 0, xl, xh, yl, yh]]
            \<and> sint (word_cat xh xl :: 16 word) = js_round dx
            \<and> sint (word_cat yh yl :: 16 word) = js_round dy))
   \<and> \<bar>real_of_int (js_round dx) - dx\<bar> \<le> 1 / 2
   \<and> \<bar>real_of_int (js_round dy) - dy\<bar> \<le> 1 / 2"
proof (intro conjI allI impI)
  show "moveMouse dx dy s = s" if "pointerWs s = None"
    using that by (simp add: moveMouse_def)
  show "moveMouse dx dy s = s" if "pointerWs s = Some p \<and> \<not> is_open s p" for p
    using that by (simp add: moveMouse_def)
  show "\<exists>xl xh yl yh.
            moveMouse dx dy s = emit (SentBytes p [1, 0, xl, xh, yl, yh]) s
            \<and> effects (moveMouse dx dy s) = effects s @ [SentBytes p [1, 0, xl, xh, yl, yh]]
            \<and> sint (word_cat xh xl :: 16 word) = js_round dx
            \<and> sint (word_cat yh yl :: 16 word) = js_round dy"
    if h: "pointerWs s = Some p \<and> is_open s p
           \<and> - 32768 \<le> js_round dx \<and> js_round dx \<le> 32767
           \<and> - 32768 \<le> js_round dy \<and> js_round dy \<le> 32767" for p
  proof -
    obtain xl xh where x: "writeInt16LE (int16Checked s) (js_round dx) = Some [xl, xh]"
        "sint (word_cat xh xl :: 16 word) = js_round dx"
      using writeInt16LE_in_range [of "js_round dx" "int16Checked s"] h by blast
    obtain yl yh where y: "writeInt16LE (int16Checked s) (js_round dy) = Some [yl, yh]"
        "sint (word_cat yh yl :: 16 word) = js_round dy"
      using writeInt16LE_in_range [of "js_round dy" "int16Checked s"] h by blast
    have "moveMouse dx dy s = emit (SentBytes p [1, 0, xl, xh, yl, yh]) s"
      using h x(1) y(1) by (simp add: moveMouse_def)
    then show ?thesis
      using x(2) y(2) by (auto simp add: emit_def)
  qed
  show "\<bar>real_of_int (js_round dx) - dx\<bar> \<le> 1 / 2" "\<bar>real_of_int (js_round dy) - dy\<bar> \<le> 1 / 2"
    by (rule js_round_nearest)+
qed

theorem moveMouse_frame_witness:
  "pointerWs (run session (fresh None)) = Some 1
   \<and> is_open (run session (fresh None)) 1
   \<and> js_round (7 / 2) = 4 \<and> js_round (- 5 / 2) = - 2
   \<and> (\<exists>xl xh yl yh.
         effects (moveMouse (7 / 2) (- 5 / 2) (run session (fresh None))) =
           effects (run session (fresh None)) @ [SentBytes 1 [1, 0, xl, xh, yl, yh]]
         \<and> sint (word_cat xh xl :: 16 word) = 4
         \<and> sint (word_cat yh yl :: 16 word) = - 2)
   \<and> moveMouse (7 / 2) (- 5 / 2) (disconnect (run session (fresh None))) =
       disconnect (run session (fresh None))"
proof -
  have p: "pointerWs (run session (fresh None)) = Some 1" "is_open (run session (fresh None)) 1"
    by code_simp+
  have r: "js_round (7 / 2) = 4" "js_round (- 5 / 2) = - 2"
    by (simp_all add: js_round_def)
  have d: "pointerWs (disconnect (run session (fresh None))) = None"
    by (simp add: disconnect_def Let_def)
  have "pointerWs (run session (fresh None)) = Some 1 \<and> is_open (run session (fresh None)) 1
        \<and> - 32768 \<le> js_round (7 / 2) \<and> js_round (7 / 2) \<le> 32767
        \<and> - 32768 \<le> js_round (- 5 / 2) \<and> js_round (- 5 / 2) \<le> 32767"
    unfolding r using p by simp
  with moveMouse_frame [of "run session (fresh None)" "7 / 2" "- 5 / 2"]
  have "\<exists>xl xh yl yh.
          moveMouse (7 / 2) (- 5 / 2) (run session (fresh None)) =
            emit (SentBytes 1 [1, 0, xl, xh, yl, yh]) (run session (fresh None))
          \<and> effects (moveMouse (7 / 2) (- 5 / 2) (run session (fresh None))) =
              effects (run session (fresh None)) @ [SentBytes 1 [1, 0, xl, xh, yl, yh]]
          \<and> sint (word_cat xh xl :: 16 word) = js_round (7 / 2)
          \<and> sint (word_cat yh yl :: 16 word) = js_round (- 5 / 2)"
    by blast
  then have a: "\<exists>xl xh yl yh.
         effects (moveMouse (7 / 2) (- 5 / 2) (run session (fresh None))) =
           effects (run session (fresh None)) @ [SentBytes 1 [1, 0, xl, xh, yl, yh]]
         \<and> sint (word_cat xh xl :: 16 word) = 4
         \<and> sint (word_cat yh yl :: 16 word) = - 2"
    unfolding r by blast
  have b: "moveMouse (7 / 2) (- 5 / 2) (disconnect (run session (fresh None))) =
       disconnect (run session (fresh None))"
    using moveMouse_frame [of "disconnect (run session (fresh None))" "7 / 2" "- 5 / 2"] d
    by blast
  from p r a b show ?thesis
    by blast
qed

text \<open>
  The claim for every real delta fails at \<open>dx = 40000\<close> with the pointer socket
  open: a runtime that checks the range throws, so that an error surfaces and no frame
  is sent; one that does not check sends the bytes 64, 156, which read as \<open>-25536\<close>.
\<close>

theorem moveMouse_out_of_range:
  "pointerWs (run session (fresh None)) = Some 1
   \<and> is_open (run session (fresh None)) 1
   \<and> js_round 40000 = 40000
   \<and> effects (moveMouse 40000 0 (run session (fresh None))) =
       effects (run session (fresh None)) @ [CommandFailed ''RangeError'']
   \<and> effects (moveMouse 40000 0 ((run session (fresh None))\<lparr>int16Checked := False\<rparr>)) =
       effects (run session (fresh None)) @ [SentBytes 1 [1, 0, 64, 156, 0, 0]]
   \<and> sint (word_cat (156 :: 8 word) (64 :: 8 word) :: 16 word) = - 25536"
proof -
  have "js_round 40000 = 40000"
    by (simp add: js_round_def)
  moreover have "sint (word_cat (156 :: 8 word) (64 :: 8 word) :: 16 word) = - 25536"
    by (simp add: word_cat_eq)
  moreover have "pointerWs (run session (fresh None)) = Some 1"
     "is_open (run session (fresh None)) 1"
     "effects (moveMouse 40000 0 (run session (fresh None))) =
       effects (run session (fresh None)) @ [CommandFailed ''RangeError'']"
     "effects (moveMouse 40000 0 ((run session (fresh None))\<lparr>int16Checked := False\<rparr>)) =
       effects (run session (fresh None)) @ [SentBytes 1 [1, 0, 64, 156, 0, 0]]"
    by code_simp+
  ultimately show ?thesis
    by simp
qed

subsection \<open>Status updates\<close>

text \<open>
  C6, as the code has it. With a listener registered, the handler of the foreground
  application subscription notifies exactly when the payload has a truthy \<open>appId\<close>,
  the handler of the volume subscription exactly when it has a \<open>volume\<close>, and an
  unsolicited message once for each of \<open>appId\<close> and \<open>volume\<close> that it has. The new
  value is stored and reported whether or not it differs from the stored one. A payload
  without the field leaves the stored value as it was and emits nothing for it.
\<close>

theorem status_notification_when_present:
  "onStatusChange s \<Longrightarrow>
   effects (foregroundApp_handler r s) =
     effects s @ (case payload_field r ''appId'' of
                    Some v \<Rightarrow> if truthy v then [Notify ((getStatus s)\<lparr>st_currentApp := v\<rparr>)] else []
                  | None \<Rightarrow> [])
   \<and> currentApp (foregroundApp_handler r s) =
       (case payload_field r ''appId'' of
          Some v \<Rightarrow> if truthy v then v else currentApp s
        | None \<Rightarrow> currentApp s)
   \<and> effects (volume_handler r s) =
       effects s @ (case payload_field r ''volume'' of
                      Some v \<Rightarrow> [Notify ((getStatus s)\<lparr>st_volume := v,
                                   st_muted := (case payload_field r ''muted'' of
                                                  Some m \<Rightarrow> if m = JNull then muted s else m
                                                | None \<Rightarrow> muted s)\<rparr>)]
                    | None \<Rightarrow> [])
   \<and> volume (volume_handler r s) =
       (case payload_field r ''volume'' of Some v \<Rightarrow> v | None \<Rightarrow> volume s)
   \<and> (payload_field r ''volume'' = None \<longrightarrow> muted (volume_handler r s) = muted s)
   \<and> effects (unsolicited r s) =
       effects s
       @ (case payload_field r ''appId'' of
            Some a \<Rightarrow> [Notify ((getStatus s)\<lparr>st_currentApp := a\<rparr>)]
          | None \<Rightarrow> [])
       @ (case payload_field r ''volume'' of
            Some v \<Rightarrow> [Notify ((getStatus (unsolicited r s)))]
          | None \<Rightarrow> [])
   \<and> currentApp (unsolicited r s) =
       (case payload_field r ''appId'' of Some a \<Rightarrow> a | None \<Rightarrow> currentApp s)
   \<and> volume (unsolicited r s) =
       (case payload_field r ''volume'' of Some v \<Rightarrow> v | None \<Rightarrow> volume s)
   \<and> (payload_field r ''volume'' = None \<longrightarrow> muted (unsolicited r s) = muted s)"
proof -
  assume l: "onStatusChange s"
  have 1: "effects (foregroundApp_handler r s) =
     effects s @ (case payload_field r ''appId'' of
                    Some v \<Rightarrow> if truthy v then [Notify ((getStatus s)\<lparr>st_currentApp := v\<rparr>)] else []
                  | None \<Rightarrow> [])"
    using l by (simp add: foregroundApp_handler_def payload_field_def notify_def emit_def
         getStatus_def split: option.splits)
  have 2: "currentApp (foregroundApp_handler r s) =
       (case payload_field r ''appId'' of
          Some v \<Rightarrow> if truthy v then v else currentApp s
        | None \<Rightarrow> currentApp s)"
    using l by (simp add: foregroundApp_handler_def payload_field_def notify_def emit_def
         split: option.splits)
  have 3: "effects (volume_handler r s) =
       effects s @ (case payload_field r ''volume'' of
                      Some v \<Rightarrow> [Notify ((getStatus s)\<lparr>st_volume := v,
                                   st_muted := (case payload_field r ''muted'' of
                                                  Some m \<Rightarrow> if m = JNull then muted s else m
                                                | None \<Rightarrow> muted s)\<rparr>)]
                    | None \<Rightarrow> [])"
    using l by (simp add: volume_handler_def payload_field_def notify_def emit_def
         getStatus_def coalesce_muted_def split: option.splits)
  have 4: "volume (volume_handler r s) =
       (case payload_field r ''volume'' of Some v \<Rightarrow> v | None \<Rightarrow> volume s)"
    "payload_field r ''volume'' = None \<longrightarrow> muted (volume_handler r s) = muted s"
    using l by (simp_all add: volume_handler_def payload_field_def notify_def emit_def
         split: option.splits)
  have 5: "effects (unsolicited r s) =
       effects s
       @ (case payload_field r ''appId'' of
            Some a \<Rightarrow> [Notify ((getStatus s)\<lparr>st_currentApp := a\<rparr>)]
          | None \<Rightarrow> [])
       @ (case payload_field r ''volume'' of
            Some v \<Rightarrow> [Notify ((getStatus (unsolicited r s)))]
          | None \<Rightarrow> [])"
    using l by (simp add: unsolicited_def payload_field_def notify_def emit_def Let_def
         getStatus_def split: option.splits)
  have 6: "currentApp (unsolicited r s) =
       (case payload_field r ''appId'' of Some a \<Rightarrow> a | None \<Rightarrow> currentApp s)"
    "volume (unsolicited r s) =
       (case payload_field r ''volume'' of Some v \<Rightarrow> v | None \<Rightarrow> volume s)"
    "payload_field r ''volume'' = None \<longrightarrow> muted (unsolicited r s) = muted s"
    using l by (simp_all add: unsolicited_def payload_field_def notify_def emit_def Let_def
         split: option.splits)
  from 1 2 3 4 5 6 show ?thesis
    by blast
qed

theorem status_notification_when_present_witness:
  "onStatusChange (run session (fresh None))
   \<and> effects (foregroundApp_handler (msg_response ''msg_3'' [(''appId'', JStr ''youtube'')])
        (run session (fresh None))) =
       effects (run session (fresh None)) @
         [Notify \<lparr>st_status = ready, st_tvIp = Some ''10.0.0.5'', st_currentApp = JStr ''youtube'',
                  st_volume = JNum 12, st_muted = JBool False\<rparr>]
   \<and> effects (volume_handler (msg_response ''msg_4'' [(''muted'', JBool True)])
        (run session (fresh None))) = effects (run session (fresh None))
   \<and> muted (volume_handler (msg_response ''msg_4'' [(''muted'', JBool True)])
        (run session (fresh None))) = JBool False"
proof -
  have l: "onStatusChange (run session (fresh None))"
    by code_simp
  have g: "getStatus (run session (fresh None)) =
       \<lparr>st_status = ready, st_tvIp = Some ''10.0.0.5'', st_currentApp = JStr ''netflix'',
        st_volume = JNum 12, st_muted = JBool False\<rparr>"
        "muted (run session (fresh None)) = JBool False"
    by code_simp+
  have f: "payload_field (msg_response ''msg_3'' [(''appId'', JStr ''youtube'')]) ''appId'' =
             Some (JStr ''youtube'')"
          "payload_field (msg_response ''msg_4'' [(''muted'', JBool True)]) ''volume'' = None"
    by (simp_all add: payload_field_def msg_response_def)
  from status_notification_when_present
         [OF l, of "msg_response ''msg_3'' [(''appId'', JStr ''youtube'')]"]
       status_notification_when_present
         [OF l, of "msg_response ''msg_4'' [(''muted'', JBool True)]"]
  show ?thesis
    by (simp add: l g f)
qed

text \<open>
  The claim that a notification needs a changed value fails: in the sample session the
  stored application is \<open>netflix\<close>; a further message of the subscription with the same
  \<open>appId\<close> notifies the listener again, with the snapshot it already had.
\<close>

theorem notification_without_change:
  "currentApp (run session (fresh None)) = JStr ''netflix''
   \<and> effects (step (WsMessage 0 (Some (msg_response ''msg_3'' [(''appId'', JStr ''netflix'')])))
        (run session (fresh None))) =
       effects (run session (fresh None)) @ [Notify (getStatus (run session (fresh None)))]
   \<and> getStatus (step (WsMessage 0 (Some (msg_response ''msg_3'' [(''appId'', JStr ''netflix'')])))
        (run session (fresh None))) = getStatus (run session (fresh None))"
  by code_simp

subsection \<open>Facts about the loop of connect\<close>

lemma status_setStatus [simp]: "status (setStatus x s) = x"
  by (simp add: setStatus_def notify_def emit_def)

lemma effects_emit [simp]: "effects (emit e s) = effects s @ [e]"
  by (simp add: emit_def)

lemma added_append [simp]: "effects s' = effects s @ xs \<Longrightarrow> added s s' = xs"
  by (simp add: added_def)

lemma effects_setStatus:
  "effects (setStatus x s) =
     effects s @ (if onStatusChange s then [Notify ((getStatus s)\<lparr>st_status := x\<rparr>)] else [])"
  by (simp add: setStatus_def notify_def getStatus_def)

lemma length_sockets_connect_catch [simp]: "length (sockets (connect_catch s)) = length (sockets s)"
  by (simp add: connect_catch_def close_opt_def ws_close_def Let_def split: option.splits)

lemma settled_connect_catch [simp]:
  "ws_settled (sockets (connect_catch s) ! h) = ws_settled (sockets s ! h)"
  by (simp add: connect_catch_def close_opt_def ws_close_def Let_def nth_list_update
        split: option.splits)

lemma status_connect_loop:
  "status (connect_loop us errs s) = connecting \<or> status (connect_loop us errs s) = disconnected"
  by (induction us arbitrary: errs s)
     (simp_all add: connectWebSocket_def Let_def setTimeout_def split: option.splits)

lemma settled_connect_loop:
  "h < length (sockets s) \<Longrightarrow>
     ws_settled (sockets (connect_loop us errs s) ! h) = ws_settled (sockets s ! h)"
  by (induction us arbitrary: errs s)
     (simp_all add: connectWebSocket_def Let_def setTimeout_def nth_append split: option.splits)

text \<open>The loop of \<open>connect\<close> only notifies and, at its end, rejects.\<close>

lemma effects_connect_loop:
  "\<exists>xs. effects (connect_loop us errs s) = effects s @ xs
        \<and> (\<forall>e \<in> set xs. (\<exists>t. e = Notify t) \<or> (\<exists>m. e = ConnectRejected m))"
proof (induction us arbitrary: errs s)
  case Nil
  then show ?case
    by (simp add: effects_setStatus)
next
  case (Cons u us)
  show ?case
  proof (cases "wsCtorError s u")
    case None
    then show ?thesis
      by (simp add: Let_def connectWebSocket_def setTimeout_def effects_setStatus)
  next
    case (Some m)
    obtain xs where "effects (connect_loop us (errs @ [u @ '' -> '' @ m])
                        (connect_catch (setStatus connecting s))) =
                     effects (connect_catch (setStatus connecting s)) @ xs"
        "\<forall>e \<in> set xs. (\<exists>t. e = Notify t) \<or> (\<exists>m. e = ConnectRejected m)"
      using Cons.IH by blast
    with Some show ?thesis
      by (auto simp add: Let_def effects_setStatus)
  qed
qed

lemma effects_fail:
  "\<exists>xs. effects (fail h m s) = effects s @ xs
        \<and> (\<forall>e \<in> set xs. (\<exists>t. e = Notify t) \<or> (\<exists>m. e = ConnectRejected m))"
proof (cases "h < length (sockets s) \<and> \<not> ws_settled (sockets s ! h)")
  case True
  then show ?thesis
    using effects_connect_loop
      [of "ws_rest (sockets s ! h)" "ws_errors (sockets s ! h) @ [ws_url (sockets s ! h) @ '' -> '' @ m]"
          "connect_catch (clearTimeout (ConnectTimeout h)
              (s\<lparr>sockets := (sockets s)[h := (sockets s ! h)\<lparr>ws_settled := True\<rparr>]\<rparr>))"]
    by (simp add: fail_def Let_def)
next
  case False
  then show ?thesis
    by (auto simp add: fail_def)
qed

lemma fail_last_candidate:
  assumes "h < length (sockets s)" "\<not> ws_settled (sockets s ! h)" "ws_rest (sockets s ! h) = []"
  shows "status (fail h m s) = disconnected"
    and "last (effects (fail h m s)) =
           ConnectRejected (''Failed to connect to TV. Attempts: '' @
             join '' | '' (ws_errors (sockets s ! h) @ [ws_url (sockets s ! h) @ '' -> '' @ m]))"
  using assms by (simp_all add: fail_def Let_def)

lemma settled_fail:
  "h < length (sockets s) \<Longrightarrow> ws_settled (sockets (fail h m s) ! h)"
  by (simp add: fail_def Let_def settled_connect_loop clearTimeout_def)

lemma status_fail:
  assumes "h < length (sockets s)" "\<not> ws_settled (sockets s ! h)"
  shows "status (fail h m s) \<noteq> ready"
proof -
  have "status (fail h m s) = connecting \<or> status (fail h m s) = disconnected"
    using assms by (simp add: fail_def Let_def status_connect_loop)
  then show ?thesis
    by auto
qed
subsection \<open>The handshake\<close>

lemma effects_sendMain:
  "\<exists>xs. effects (snd (sendMain m c s)) = effects s @ xs \<and> (\<forall>e \<in> set xs. \<exists>h r. e = SentJson h r)"
  by (simp add: sendMain_def nextId_def Let_def setTimeout_def split: option.splits prod.splits)

lemma effects_subscribeToStatus:
  "\<exists>xs. effects (subscribeToStatus s) = effects s @ xs \<and> (\<forall>e \<in> set xs. \<exists>h r. e = SentJson h r)"
  by (simp add: subscribeToStatus_def nextId_def send_json_def Let_def split: option.splits)

lemma register_handler_success:
  assumes h: "h < length (sockets s)" "\<not> ws_settled (sockets s ! h)"
    and ok: "resp_type resp = ''registered''
             \<or> (resp_type resp = ''response'' \<and> returnedClientKey resp \<noteq> None)"
  shows "status (register_handler h resp s) = ready"
    and "last (effects (register_handler h resp s)) = ConnectResolved"
    and "ws_settled (sockets (register_handler h resp s) ! h)"
    and "clientKey (register_handler h resp s) =
           (case returnedClientKey resp of Some k \<Rightarrow> Some k | None \<Rightarrow> clientKey s)"
  using h ok
  by (simp_all add: register_handler_def Let_def succeed_def split: option.splits)

lemma register_handler_error:
  assumes "resp_type resp = ''error''"
  shows "register_handler h resp s =
           fail h (case resp_error resp of
                     Some e \<Rightarrow> if e \<noteq> [] then e else ''Registration failed''
                   | None \<Rightarrow> ''Registration failed'')
             (setStatus disconnected s)"
  using assms by (simp add: register_handler_def)

lemma register_handler_other:
  assumes "resp_type resp \<noteq> ''registered''" "resp_type resp \<noteq> ''error''"
    "\<not> (resp_type resp = ''response'' \<and> returnedClientKey resp \<noteq> None)"
  shows "register_handler h resp s = s"
  using assms by (auto simp add: register_handler_def)

lemma register_handler_not_ok:
  assumes h: "h < length (sockets s)" "\<not> ws_settled (sockets s ! h)"
    and no: "\<not> (resp_type resp = ''registered''
             \<or> (resp_type resp = ''response'' \<and> returnedClientKey resp \<noteq> None))"
  shows "ConnectResolved \<notin> set (added s (register_handler h resp s))"
    and "status s \<noteq> ready \<longrightarrow> status (register_handler h resp s) \<noteq> ready"
proof -
  show "ConnectResolved \<notin> set (added s (register_handler h resp s))"
  proof (cases "resp_type resp = ''error''")
    case True
    obtain xs where xs: "effects (fail h (case resp_error resp of
                     Some e \<Rightarrow> if e \<noteq> [] then e else ''Registration failed''
                   | None \<Rightarrow> ''Registration failed'') (setStatus disconnected s)) =
                effects (setStatus disconnected s) @ xs"
        "\<forall>e \<in> set xs. (\<exists>t. e = Notify t) \<or> (\<exists>m. e = ConnectRejected m)"
      using effects_fail by blast
    have "added s (register_handler h resp s) =
            (if onStatusChange s then [Notify ((getStatus s)\<lparr>st_status := disconnected\<rparr>)] else []) @ xs"
      by (rule added_append) (simp add: register_handler_error [OF True] xs(1) effects_setStatus)
    with xs(2) show ?thesis
      by auto
  next
    case False
    with no have "register_handler h resp s = s"
      by (auto simp add: register_handler_def)
    then show ?thesis
      by (simp add: added_def)
  qed
  show "status s \<noteq> ready \<longrightarrow> status (register_handler h resp s) \<noteq> ready"
  proof (cases "resp_type resp = ''error''")
    case True
    have "h < length (sockets (setStatus disconnected s))"
         "\<not> ws_settled (sockets (setStatus disconnected s) ! h)"
      using h by simp_all
    from status_fail [OF this] show ?thesis
      by (simp add: register_handler_error [OF True])
  next
    case False
    with no have "register_handler h resp s = s"
      by (auto simp add: register_handler_def)
    then show ?thesis
      by simp
  qed
qed

subsection \<open>The configuration file\<close>

lemma store_register_handler:
  "store (register_handler h resp s) =
     (if resp_type resp = ''registered''
         \<or> (resp_type resp = ''response'' \<and> returnedClientKey resp \<noteq> None)
      then store (saveConfig (case returnedClientKey resp of
                                Some k \<Rightarrow> s\<lparr>clientKey := Some k\<rparr> | None \<Rightarrow> s))
      else store s)"
  by (auto simp add: register_handler_def Let_def)

lemma store_saveConfig:
  "store (saveConfig s) \<noteq> store s \<Longrightarrow>
     \<exists>ip k. ip \<noteq> [] \<and> k \<noteq> [] \<and> tvIp s = Some ip \<and> clientKey s = Some k \<and> fsWritable s
            \<and> store (saveConfig s) = Some \<lparr>cfg_tvIp = ip, cfg_clientKey = k\<rparr>"
  by (auto simp add: saveConfig_def split: option.splits if_splits)

lemma store_invoke_other:
  "(\<forall>a. x \<noteq> RegisterHandler a) \<Longrightarrow> store (invoke x r s) = store s"
  by (cases x) (simp_all add: invoke_def Let_def split: caller.splits)

lemma store_step_other:
  "(\<forall>h r. e \<noteq> WsMessage h (Some r)) \<Longrightarrow> store (step e s) = store s"
  by (cases e) (auto simp add: step_def Let_def handleMainMessage_def)

lemma store_step:
  assumes "store (step e s) \<noteq> store s"
  shows "\<exists>h resp a ip k.
           e = WsMessage h (Some resp) \<and> lookup_handler s resp = Some (RegisterHandler a)
           \<and> (resp_type resp = ''registered''
                \<or> (resp_type resp = ''response'' \<and> returnedClientKey resp \<noteq> None))
           \<and> ip \<noteq> [] \<and> k \<noteq> [] \<and> tvIp s = Some ip \<and> clientKey (step e s) = Some k
           \<and> store (step e s) = Some \<lparr>cfg_tvIp = ip, cfg_clientKey = k\<rparr>"
proof -
  from assms obtain h resp where e: "e = WsMessage h (Some resp)"
    using store_step_other by blast
  let ?s' = "handleMainMessage (Some resp) s"
  have st: "step e s = ?s'" "store ?s' \<noteq> store s"
    using assms unfolding e by (auto simp add: step_def split: if_splits)
  then obtain x where x: "lookup_handler s resp = Some x"
    by (cases "lookup_handler s resp") (auto simp add: handleMainMessage_def)
  define s1 where "s1 = (let i = the (resp_id resp) in
       if i \<notin> subscriptionIds s \<and> registrationRequestId s \<noteq> Some i
       then s\<lparr>pendingRequests := (pendingRequests s)(i := None)\<rparr>
       else if registrationRequestId s = Some i \<and> registrationDone resp
       then s\<lparr>pendingRequests := (pendingRequests s)(i := None), registrationRequestId := None\<rparr>
       else s)"
  have s1: "?s' = invoke x resp s1" "store s1 = store s" "tvIp s1 = tvIp s"
    by (simp_all add: handleMainMessage_def x s1_def Let_def)
  with st store_invoke_other obtain a where a: "x = RegisterHandler a"
    by metis
  let ?s2 = "case returnedClientKey resp of Some k \<Rightarrow> s1\<lparr>clientKey := Some k\<rparr> | None \<Rightarrow> s1"
  have inv: "?s' = register_handler a resp s1"
    by (simp add: s1(1) a invoke_def)
  have ok: "resp_type resp = ''registered''
                \<or> (resp_type resp = ''response'' \<and> returnedClientKey resp \<noteq> None)"
    using st(2) s1(2) unfolding inv store_register_handler by (auto split: if_splits)
  then have "store ?s' = store (saveConfig ?s2)"
    unfolding inv store_register_handler by simp
  moreover have "store ?s2 = store s" "tvIp ?s2 = tvIp s"
    using s1 by (simp_all split: option.splits)
  ultimately obtain ip k where k: "ip \<noteq> []" "k \<noteq> []" "tvIp s = Some ip" "clientKey ?s2 = Some k"
    "store ?s' = Some \<lparr>cfg_tvIp = ip, cfg_clientKey = k\<rparr>"
    using store_saveConfig [of ?s2] st(2) by auto
  have "clientKey ?s' = clientKey ?s2"
    using ok unfolding inv by (auto simp add: register_handler_def Let_def split: option.splits)
  with k e x a ok st(1) show ?thesis
    by auto
qed

text \<open>
  C7. The configuration file changes only when a handshake succeeds: a turn of the
  event loop that changes it is the delivery of a successful handshake response to the
  handler of \<open>register\<close>, and what is written is the non-empty address together with
  the non-empty key then held. With no key held and none returned, a \<open>registered\<close>
  response makes the session \<open>ready\<close> and leaves the file alone; so it does in the
  scenario of a first connection to 10.0.0.5 with no stored credential, whose handshake
  carries no \<open>client-key\<close>. When the file cannot be written, a successful handshake
  still makes the session \<open>ready\<close> and resolves the attempt.
\<close>

theorem store_written_only_after_handshake:
  "(store (step e s) \<noteq> store s \<longrightarrow>
      (\<exists>h resp a ip k.
          e = WsMessage h (Some resp) \<and> lookup_handler s resp = Some (RegisterHandler a)
          \<and> (resp_type resp = ''registered''
               \<or> (resp_type resp = ''response'' \<and> returnedClientKey resp \<noteq> None))
          \<and> ip \<noteq> [] \<and> k \<noteq> [] \<and> tvIp s = Some ip \<and> clientKey (step e s) = Some k
          \<and> store (step e s) = Some \<lparr>cfg_tvIp = ip, cfg_clientKey = k\<rparr>))
   \<and> (b < length (sockets t) \<and> \<not> ws_settled (sockets t ! b)
        \<and> clientKey t = None \<and> resp_type r = ''registered'' \<and> returnedClientKey r = None \<longrightarrow>
        status (register_handler b r t) = ready
        \<and> last (effects (register_handler b r t)) = ConnectResolved
        \<and> clientKey (register_handler b r t) = None
        \<and> store (register_handler b r t) = store t)
   \<and> (b < length (sockets t) \<and> \<not> ws_settled (sockets t ! b) \<and> \<not> fsWritable t
        \<and> (resp_type r = ''registered''
             \<or> (resp_type r = ''response'' \<and> returnedClientKey r \<noteq> None)) \<longrightarrow>
        status (register_handler b r t) = ready
        \<and> last (effects (register_handler b r t)) = ConnectResolved
        \<and> store (register_handler b r t) = store t)
   \<and> status (run [CallConnect ''10.0.0.5'', WsOpen 0, WsMessage 0 (Some (msg_registered ''msg_1''))]
          (fresh None)) = ready
   \<and> store (run [CallConnect ''10.0.0.5'', WsOpen 0, WsMessage 0 (Some (msg_registered ''msg_1''))]
          (fresh None)) = None
   \<and> effects (run [CallConnect ''10.0.0.5'', WsOpen 0] (fresh None)) =
       [SentJson 0 \<lparr>req_id = Some ''msg_1'', req_type = ''register'', req_uri = None,
                    req_payload = Some []\<rparr>]"
proof (intro conjI impI)
  assume "store (step e s) \<noteq> store s"
  then show "\<exists>h resp a ip k.
          e = WsMessage h (Some resp) \<and> lookup_handler s resp = Some (RegisterHandler a)
          \<and> (resp_type resp = ''registered''
               \<or> (resp_type resp = ''response'' \<and> returnedClientKey resp \<noteq> None))
          \<and> ip \<noteq> [] \<and> k \<noteq> [] \<and> tvIp s = Some ip \<and> clientKey (step e s) = Some k
          \<and> store (step e s) = Some \<lparr>cfg_tvIp = ip, cfg_clientKey = k\<rparr>"
    by (rule store_step)
next
  assume a: "b < length (sockets t) \<and> \<not> ws_settled (sockets t ! b)
        \<and> clientKey t = None \<and> resp_type r = ''registered'' \<and> returnedClientKey r = None"
  then have ok: "resp_type r = ''registered''
             \<or> (resp_type r = ''response'' \<and> returnedClientKey r \<noteq> None)"
    by simp
  from a show "status (register_handler b r t) = ready"
    "last (effects (register_handler b r t)) = ConnectResolved"
    using register_handler_success(1,2) [OF _ _ ok, of b t] by simp_all
  from a show "clientKey (register_handler b r t) = None"
    using register_handler_success(4) [OF _ _ ok, of b t] by simp
  from a show "store (register_handler b r t) = store t"
    by (simp add: store_register_handler saveConfig_def split: option.splits)
next
  assume a: "b < length (sockets t) \<and> \<not> ws_settled (sockets t ! b) \<and> \<not> fsWritable t
        \<and> (resp_type r = ''registered''
             \<or> (resp_type r = ''response'' \<and> returnedClientKey r \<noteq> None))"
  then have ok: "resp_type r = ''registered''
             \<or> (resp_type r = ''response'' \<and> returnedClientKey r \<noteq> None)"
    by simp
  from a show "status (register_handler b r t) = ready"
    "last (effects (register_handler b r t)) = ConnectResolved"
    using register_handler_success(1,2) [OF _ _ ok, of b t] by simp_all
  from a show "store (register_handler b r t) = store t"
    by (auto simp add: store_register_handler saveConfig_def split: option.splits)
next
  show "status (run [CallConnect ''10.0.0.5'', WsOpen 0, WsMessage 0 (Some (msg_registered ''msg_1''))]
          (fresh None)) = ready"
    by code_simp
  show "store (run [CallConnect ''10.0.0.5'', WsOpen 0, WsMessage 0 (Some (msg_registered ''msg_1''))]
          (fresh None)) = None"
    by code_simp
  show "effects (run [CallConnect ''10.0.0.5'', WsOpen 0] (fresh None)) =
       [SentJson 0 \<lparr>req_id = Some ''msg_1'', req_type = ''register'', req_uri = None,
                    req_payload = Some []\<rparr>]"
    by code_simp
qed

theorem store_written_only_after_handshake_witness:
  "store (run [CallConnect ''10.0.0.5'', WsOpen 0] (fresh None)) = None
   \<and> store (step (WsMessage 0 (Some (msg_response ''msg_1'' [(''client-key'', JStr ''abc123'')])))
        (run [CallConnect ''10.0.0.5'', WsOpen 0] (fresh None))) =
       Some \<lparr>cfg_tvIp = ''10.0.0.5'', cfg_clientKey = ''abc123''\<rparr>
   \<and> (\<exists>h resp a ip k.
          WsMessage 0 (Some (msg_response ''msg_1'' [(''client-key'', JStr ''abc123'')])) =
            WsMessage h (Some resp)
          \<and> lookup_handler (run [CallConnect ''10.0.0.5'', WsOpen 0] (fresh None)) resp =
              Some (RegisterHandler a)
          \<and> ip \<noteq> [] \<and> k \<noteq> []
          \<and> tvIp (run [CallConnect ''10.0.0.5'', WsOpen 0] (fresh None)) = Some ip
          \<and> store (step (WsMessage 0 (Some (msg_response ''msg_1'' [(''client-key'', JStr ''abc123'')])))
               (run [CallConnect ''10.0.0.5'', WsOpen 0] (fresh None))) =
              Some \<lparr>cfg_tvIp = ip, cfg_clientKey = k\<rparr>)"
proof -
  let ?s = "run [CallConnect ''10.0.0.5'', WsOpen 0] (fresh None)"
  let ?e = "WsMessage 0 (Some (msg_response ''msg_1'' [(''client-key'', JStr ''abc123'')]))"
  have 1: "store ?s = None"
    by code_simp
  have 2: "store (step ?e ?s) = Some \<lparr>cfg_tvIp = ''10.0.0.5'', cfg_clientKey = ''abc123''\<rparr>"
    by code_simp
  have "store (step ?e ?s) \<noteq> store ?s"
    unfolding 1 2 by simp
  with store_written_only_after_handshake [of ?e ?s]
  have "\<exists>h resp a ip k.
          ?e = WsMessage h (Some resp) \<and> lookup_handler ?s resp = Some (RegisterHandler a)
          \<and> (resp_type resp = ''registered''
               \<or> (resp_type resp = ''response'' \<and> returnedClientKey resp \<noteq> None))
          \<and> ip \<noteq> [] \<and> k \<noteq> [] \<and> tvIp ?s = Some ip \<and> clientKey (step ?e ?s) = Some k
          \<and> store (step ?e ?s) = Some \<lparr>cfg_tvIp = ip, cfg_clientKey = k\<rparr>"
    by blast
  then have "\<exists>h resp a ip k.
          ?e = WsMessage h (Some resp) \<and> lookup_handler ?s resp = Some (RegisterHandler a)
          \<and> ip \<noteq> [] \<and> k \<noteq> [] \<and> tvIp ?s = Some ip
          \<and> store (step ?e ?s) = Some \<lparr>cfg_tvIp = ip, cfg_clientKey = k\<rparr>"
    by blast
  with 1 2 show ?thesis
    by blast
qed

subsection \<open>The credential in the handshake\<close>

lemma clientKey_connect:
  "clientKey (connect ip s) =
     (case store s of
        Some c \<Rightarrow> if cfg_tvIp c = ip then Some (cfg_clientKey c) else clientKey s
      | None \<Rightarrow> clientKey s)"
  by (simp add: connect_def loadConfig_def Let_def split: option.splits)

text \<open>
  C1 at a failing input. The file holds the key \<open>abc123\<close> for 10.0.0.5. A session with
  10.0.0.5 is set up, and then \<open>connect\<close> is called for 10.0.0.6. \<open>connect\<close> replaces
  the key held in memory only when the stored address is the one asked for, and
  neither it nor \<open>disconnect\<close> clears it otherwise: the handshake sent to 10.0.0.6
  carries the key of 10.0.0.5.
\<close>

theorem stale_key_sent_to_other_address:
  "clientKey (connect ip s) =
     (case store s of
        Some c \<Rightarrow> if cfg_tvIp c = ip then Some (cfg_clientKey c) else clientKey s
      | None \<Rightarrow> clientKey s)
   \<and> clientKey (disconnect s) = clientKey s
   \<and> store (run [CallConnect ''10.0.0.5'', WsOpen 0, WsMessage 0 (Some (msg_registered ''msg_1'')),
                  CallConnect ''10.0.0.6'', WsOpen 1]
             (fresh (Some \<lparr>cfg_tvIp = ''10.0.0.5'', cfg_clientKey = ''abc123''\<rparr>))) =
       Some \<lparr>cfg_tvIp = ''10.0.0.5'', cfg_clientKey = ''abc123''\<rparr>
   \<and> tvIp (run [CallConnect ''10.0.0.5'', WsOpen 0, WsMessage 0 (Some (msg_registered ''msg_1'')),
                 CallConnect ''10.0.0.6'', WsOpen 1]
             (fresh (Some \<lparr>cfg_tvIp = ''10.0.0.5'', cfg_clientKey = ''abc123''\<rparr>))) =
       Some ''10.0.0.6''
   \<and> last (effects (run [CallConnect ''10.0.0.5'', WsOpen 0,
                          WsMessage 0 (Some (msg_registered ''msg_1'')),
                          CallConnect ''10.0.0.6'', WsOpen 1]
             (fresh (Some \<lparr>cfg_tvIp = ''10.0.0.5'', cfg_clientKey = ''abc123''\<rparr>)))) =
       SentJson 1 \<lparr>req_id = Some ''msg_5'', req_type = ''register'', req_uri = None,
                   req_payload = Some [(''client-key'', JStr ''abc123'')]\<rparr>"
proof (intro conjI)
  show "clientKey (connect ip s) =
     (case store s of
        Some c \<Rightarrow> if cfg_tvIp c = ip then Some (cfg_clientKey c) else clientKey s
      | None \<Rightarrow> clientKey s)"
    by (rule clientKey_connect)
  show "clientKey (disconnect s) = clientKey s"
    by simp
  show "store (run [CallConnect ''10.0.0.5'', WsOpen 0, WsMessage 0 (Some (msg_registered ''msg_1'')),
                  CallConnect ''10.0.0.6'', WsOpen 1]
             (fresh (Some \<lparr>cfg_tvIp = ''10.0.0.5'', cfg_clientKey = ''abc123''\<rparr>))) =
       Some \<lparr>cfg_tvIp = ''10.0.0.5'', cfg_clientKey = ''abc123''\<rparr>"
    by code_simp
  show "tvIp (run [CallConnect ''10.0.0.5'', WsOpen 0, WsMessage 0 (Some (msg_registered ''msg_1'')),
                 CallConnect ''10.0.0.6'', WsOpen 1]
             (fresh (Some \<lparr>cfg_tvIp = ''10.0.0.5'', cfg_clientKey = ''abc123''\<rparr>))) =
       Some ''10.0.0.6''"
    by code_simp
  show "last (effects (run [CallConnect ''10.0.0.5'', WsOpen 0,
                          WsMessage 0 (Some (msg_registered ''msg_1'')),
                          CallConnect ''10.0.0.6'', WsOpen 1]
             (fresh (Some \<lparr>cfg_tvIp = ''10.0.0.5'', cfg_clientKey = ''abc123''\<rparr>)))) =
       SentJson 1 \<lparr>req_id = Some ''msg_5'', req_type = ''register'', req_uri = None,
                   req_payload = Some [(''client-key'', JStr ''abc123'')]\<rparr>"
    by code_simp
qed

subsection \<open>Identifiers are never reused\<close>

lemma digit_inject: "a < 10 \<Longrightarrow> b < 10 \<Longrightarrow> digit a = digit b \<Longrightarrow> a = b"
proof -
  assume a: "a < 10" and b: "b < 10" and e: "digit a = digit b"
  from e have "of_char (char_of (48 + a) :: char) = (of_char (char_of (48 + b) :: char) :: nat)"
    by (simp add: digit_def)
  with a b show ?thesis
    by (simp add: of_char_of)
qed

lemma show_nat_nonempty [simp]: "show_nat n \<noteq> []"
  by (subst show_nat.simps) simp

lemma show_nat_nonempty' [simp]: "[] \<noteq> show_nat n"
  using show_nat_nonempty [of n] by (simp del: show_nat_nonempty)

lemma show_nat_inject: "show_nat n = show_nat m \<Longrightarrow> n = m"
proof (induction n arbitrary: m rule: show_nat.induct)
  case (1 n)
  show ?case
  proof (cases "n < 10")
    case True
    then have n: "show_nat n = [digit n]"
      by (subst show_nat.simps) simp
    show ?thesis
    proof (cases "m < 10")
      case m: True
      then have "show_nat m = [digit m]"
        by (subst show_nat.simps) simp
      with n "1.prems" True m show ?thesis
        by (simp add: digit_inject)
    next
      case m: False
      then have "show_nat m = show_nat (m div 10) @ [digit (m mod 10)]"
        by (subst show_nat.simps) simp
      with n "1.prems" show ?thesis
        by simp
    qed
  next
    case False
    then have n: "show_nat n = show_nat (n div 10) @ [digit (n mod 10)]"
      by (subst show_nat.simps) simp
    show ?thesis
    proof (cases "m < 10")
      case m: True
      then have "show_nat m = [digit m]"
        by (subst show_nat.simps) simp
      with n "1.prems" show ?thesis
        by simp
    next
      case m: False
      then have "show_nat m = show_nat (m div 10) @ [digit (m mod 10)]"
        by (subst show_nat.simps) simp
      with n "1.prems" have "show_nat (n div 10) = show_nat (m div 10)"
        "digit (n mod 10) = digit (m mod 10)"
        by simp_all
      with "1.IH" [OF False] have "n div 10 = m div 10" "n mod 10 = m mod 10"
        by (simp_all add: digit_inject)
      then show ?thesis
        by (metis div_mult_mod_eq)
    qed
  qed
qed

text \<open>The identifier \<open>nextId\<close> returns is none of those handed out before.\<close>

lemma fresh_not_old: "\<not> old_id s (''msg_'' @ show_nat (Suc (msgId s)))"
  by (auto simp add: old_id_def dest: show_nat_inject)

lemma old_id_mono: "old_id s i \<Longrightarrow> msgId s \<le> msgId s' \<Longrightarrow> old_id s' i"
  by (auto simp add: old_id_def intro: order_trans)

lemma old_id_fresh: "msgId s' = Suc (msgId s) \<Longrightarrow> old_id s' (''msg_'' @ show_nat (Suc (msgId s)))"
  by (auto simp add: old_id_def)

subsection \<open>Timers and settlements of the correlator, function by function\<close>

lemma sett_effects: "effects s' = effects s @ xs \<Longrightarrow> sett s' = sett s @ filter is_settle xs"
  by (simp add: sett_def)

lemma sett_same: "effects s' = effects s \<Longrightarrow> sett s' = sett s"
  by (simp add: sett_def)

lemma smt_same: "timers s' = timers s \<Longrightarrow> smt s' = smt s"
  by (simp add: smt_def)

lemma smt_setStatus [simp]: "smt (setStatus x s) = smt s"
  by (simp add: smt_def)

lemma smt_connect_catch [simp]: "smt (connect_catch s) = smt s"
  by (simp add: smt_def)

lemma sett_connect_catch [simp]: "sett (connect_catch s) = sett s"
  by (simp add: sett_def)

lemma sett_clearTimeout [simp]: "sett (clearTimeout t s) = sett s"
  by (simp add: sett_def)

lemma smt_disconnect [simp]: "smt (disconnect s) = smt s"
  by (simp add: smt_def)

lemma smt_close_opt [simp]: "smt (close_opt w s) = smt s"
  by (simp add: smt_def)

lemma sett_close_opt [simp]: "sett (close_opt w s) = sett s"
  by (simp add: sett_def)

lemma smt_subscribeToStatus [simp]: "smt (subscribeToStatus s) = smt s"
  by (simp add: smt_def)

lemma smt_update [simp]:
  "smt (s\<lparr>mainWs := v0\<rparr>) = smt s"
  "smt (s\<lparr>pointerWs := v1\<rparr>) = smt s"
  "smt (s\<lparr>status := v2\<rparr>) = smt s"
  "smt (s\<lparr>tvIp := v3\<rparr>) = smt s"
  "smt (s\<lparr>clientKey := v4\<rparr>) = smt s"
  "smt (s\<lparr>msgId := v5\<rparr>) = smt s"
  "smt (s\<lparr>pendingRequests := v6\<rparr>) = smt s"
  "smt (s\<lparr>subscriptionIds := v7\<rparr>) = smt s"
  "smt (s\<lparr>registrationRequestId := v8\<rparr>) = smt s"
  "smt (s\<lparr>currentApp := v9\<rparr>) = smt s"
  "smt (s\<lparr>volume := v10\<rparr>) = smt s"
  "smt (s\<lparr>muted := v11\<rparr>) = smt s"
  "smt (s\<lparr>onStatusChange := v12\<rparr>) = smt s"
  "smt (s\<lparr>sockets := v13\<rparr>) = smt s"
  "smt (s\<lparr>store := v15\<rparr>) = smt s"
  "smt (s\<lparr>fsWritable := v16\<rparr>) = smt s"
  "smt (s\<lparr>wsCtorError := v17\<rparr>) = smt s"
  "smt (s\<lparr>int16Checked := v18\<rparr>) = smt s"
  "smt (s\<lparr>LG_HANDSHAKE_PAYLOAD := v19\<rparr>) = smt s"
  "smt (s\<lparr>effects := v20\<rparr>) = smt s"
  by (simp_all add: smt_def)

lemma sett_update [simp]:
  "sett (s\<lparr>mainWs := v0\<rparr>) = sett s"
  "sett (s\<lparr>pointerWs := v1\<rparr>) = sett s"
  "sett (s\<lparr>status := v2\<rparr>) = sett s"
  "sett (s\<lparr>tvIp := v3\<rparr>) = sett s"
  "sett (s\<lparr>clientKey := v4\<rparr>) = sett s"
  "sett (s\<lparr>msgId := v5\<rparr>) = sett s"
  "sett (s\<lparr>pendingRequests := v6\<rparr>) = sett s"
  "sett (s\<lparr>subscriptionIds := v7\<rparr>) = sett s"
  "sett (s\<lparr>registrationRequestId := v8\<rparr>) = sett s"
  "sett (s\<lparr>currentApp := v9\<rparr>) = sett s"
  "sett (s\<lparr>volume := v10\<rparr>) = sett s"
  "sett (s\<lparr>muted := v11\<rparr>) = sett s"
  "sett (s\<lparr>onStatusChange := v12\<rparr>) = sett s"
  "sett (s\<lparr>sockets := v13\<rparr>) = sett s"
  "sett (s\<lparr>timers := v14\<rparr>) = sett s"
  "sett (s\<lparr>store := v15\<rparr>) = sett s"
  "sett (s\<lparr>fsWritable := v16\<rparr>) = sett s"
  "sett (s\<lparr>wsCtorError := v17\<rparr>) = sett s"
  "sett (s\<lparr>int16Checked := v18\<rparr>) = sett s"
  "sett (s\<lparr>LG_HANDSHAKE_PAYLOAD := v19\<rparr>) = sett s"
  by (simp_all add: sett_def)

lemma smt_emit [simp]: "smt (emit e s) = smt s"
  by (simp add: smt_def)

lemma sett_setTimeout [simp]: "sett (setTimeout t s) = sett s"
  by (simp add: sett_def)

lemma sett_emit: "sett (emit e s) = sett s @ (if is_settle e then [e] else [])"
  by (simp add: sett_def)

lemma sett_notify [simp]: "sett (notify s) = sett s"
  by (simp add: notify_def sett_emit)

lemma smt_notify [simp]: "smt (notify s) = smt s"
  by (simp add: smt_def)

lemma sett_setStatus [simp]: "sett (setStatus x s) = sett s"
  by (simp add: setStatus_def sett_def notify_def emit_def)

lemma smt_setTimeout:
  "smt (setTimeout t s) = (case t of SendMainTimeout i c \<Rightarrow> insert i (smt s) | _ \<Rightarrow> smt s)"
  by (auto simp add: smt_def setTimeout_def split: timer.splits)

lemma smt_clearTimeout [simp]: "smt (clearTimeout (ConnectTimeout h) s) = smt s"
  by (simp add: smt_def clearTimeout_def)

lemma smt_connectWebSocket [simp]: "smt (connectWebSocket u us errs s) = smt s"
  by (simp add: smt_def connectWebSocket_def setTimeout_def Let_def)

lemma smt_connect_loop [simp]: "smt (connect_loop us errs s) = smt s"
  by (induction us arbitrary: errs s) (simp_all add: Let_def split: option.splits)

lemma sett_connect_loop [simp]: "sett (connect_loop us errs s) = sett s"
proof -
  obtain xs where "effects (connect_loop us errs s) = effects s @ xs"
    "\<forall>e \<in> set xs. (\<exists>t. e = Notify t) \<or> (\<exists>m. e = ConnectRejected m)"
    using effects_connect_loop by blast
  moreover from this(2) have "filter is_settle xs = []"
    by (auto simp add: filter_empty_conv)
  ultimately show ?thesis
    by (simp add: sett_effects)
qed

lemma smt_fail [simp]: "smt (fail h m s) = smt s"
  by (simp add: fail_def Let_def)

lemma sett_fail [simp]: "sett (fail h m s) = sett s"
  by (simp add: fail_def Let_def)

lemma sett_succeed [simp]: "sett (succeed h s) = sett s"
  by (simp add: succeed_def sett_emit)

lemma sett_disconnect [simp]: "sett (disconnect s) = sett s"
  by (simp add: disconnect_def Let_def)

lemma smt_connect [simp]: "smt (connect ip s) = smt s"
  by (simp add: connect_def loadConfig_def Let_def split: option.splits)

lemma sett_connect [simp]: "sett (connect ip s) = sett s"
  by (simp add: connect_def loadConfig_def Let_def split: option.splits)

lemma sett_foregroundApp_handler [simp]: "sett (foregroundApp_handler r s) = sett s"
  by (simp add: foregroundApp_handler_def split: option.splits)

lemma sett_volume_handler [simp]: "sett (volume_handler r s) = sett s"
  by (simp add: volume_handler_def split: option.splits)

lemma sett_unsolicited [simp]: "sett (unsolicited r s) = sett s"
  by (simp add: unsolicited_def Let_def split: option.splits)

lemma sett_moveMouse [simp]: "sett (moveMouse dx dy s) = sett s"
  by (simp add: moveMouse_def sett_emit split: option.splits)

lemma sett_click [simp]: "sett (click s) = sett s"
  by (simp add: click_def sett_emit split: option.splits)

lemma smt_click [simp]: "smt (click s) = smt s"
  by (simp add: click_def smt_setTimeout split: option.splits)

lemma sett_click_release [simp]: "sett (click_release s) = sett s"
  by (simp add: click_release_def send_bytes_def sett_emit split: option.splits)

lemma smt_onerror [simp]: "smt (onerror h d s) = smt s"
  by (simp add: onerror_def)

lemma sett_onerror [simp]: "sett (onerror h d s) = sett s"
  by (simp add: onerror_def)

lemma smt_onclose [simp]: "smt (onclose h s) = smt s"
  by (simp add: onclose_def Let_def)

lemma sett_onclose [simp]: "sett (onclose h s) = sett s"
  by (simp add: onclose_def Let_def)

lemma smt_connect_timeout [simp]: "smt (connect_timeout h s) = smt s"
  by (simp add: connect_timeout_def)

lemma sett_connect_timeout [simp]: "sett (connect_timeout h s) = sett s"
  by (simp add: connect_timeout_def)

lemma sett_subscribeToStatus [simp]: "sett (subscribeToStatus s) = sett s"
  by (simp add: subscribeToStatus_def nextId_def send_json_def Let_def sett_emit
        split: option.splits)

lemma sett_sendMain [simp]: "sett (snd (sendMain m c s)) = sett s"
  by (simp add: sendMain_def nextId_def Let_def sett_emit split: option.splits prod.splits)

lemma smt_register [simp]: "smt (register h s) = smt s"
  by (simp add: register_def nextId_def send_json_def Let_def smt_setTimeout
        split: option.splits)

lemma sett_register [simp]: "sett (register h s) = sett s"
  by (simp add: register_def nextId_def send_json_def Let_def sett_emit split: option.splits)

lemma smt_register_timeout [simp]: "smt (register_timeout i h s) = smt s"
  by (simp add: register_timeout_def)

lemma sett_register_timeout [simp]: "sett (register_timeout i h s) = sett s"
  by (simp add: register_timeout_def)

lemma smt_onopen [simp]: "smt (onopen h s) = smt s"
  by (simp add: onopen_def)

lemma sett_onopen [simp]: "sett (onopen h s) = sett s"
  by (simp add: onopen_def)

subsection \<open>The correlator invariant\<close>

lemma settles_is_settle: "settles i e \<Longrightarrow> is_settle e"
  by (cases e) simp_all

lemma correlator_ok_initial: "correlator_ok (initial cfg w ctor chk hp)"
  by (simp add: correlator_ok_def initial_def smt_def sett_def)

lemma correlator_ok_core: "core s' = core s \<Longrightarrow> correlator_ok s \<Longrightarrow> correlator_ok s'"
  by (simp add: correlator_ok_def core_def old_id_def)

text \<open>Entries, subscriptions and timers may go away.\<close>

lemma correlator_ok_shrink:
  assumes ok: "correlator_ok s"
    and p: "\<And>i x. pendingRequests s' i = Some x \<Longrightarrow> pendingRequests s i = Some x"
    and s: "subscriptionIds s' \<subseteq> subscriptionIds s"
    and r: "registrationRequestId s' = registrationRequestId s \<or> registrationRequestId s' = None"
    and n: "msgId s' = msgId s"
    and t: "smt s' \<subseteq> smt s"
    and e: "sett s' = sett s"
  shows "correlator_ok s'"
proof -
  have o: "old_id s' = old_id s"
    by (simp add: old_id_def fun_eq_iff n)
  show ?thesis
    unfolding correlator_ok_def o e
  proof (intro conjI allI impI)
    fix i x assume "pendingRequests s' i = Some x"
    then show "old_id s i"
      using ok p unfolding correlator_ok_def by blast
  next
    fix i assume "i \<in> subscriptionIds s'"
    then show "old_id s i"
      using ok s unfolding correlator_ok_def by blast
  next
    fix i assume "registrationRequestId s' = Some i"
    then show "old_id s i"
      using ok r unfolding correlator_ok_def by auto
  next
    fix i assume "i \<in> smt s'"
    then show "old_id s i" 
      using ok t unfolding correlator_ok_def by blast
  next
    fix i x assume "i \<in> smt s'" "pendingRequests s' i = Some x"
    then show "\<exists>c. x = Resolver i c"
      using ok t p unfolding correlator_ok_def by blast
  next
    fix e i assume "e \<in> set (sett s) \<and> settles i e"
    then show "old_id s i"
      using ok unfolding correlator_ok_def by blast
  next
    fix i j c assume a: "pendingRequests s' i = Some (Resolver j c)"
    then have b: "pendingRequests s i = Some (Resolver j c)"
      by (rule p)
    from b show "j = i"
      using ok unfolding correlator_ok_def by blast
    from b show "i \<notin> subscriptionIds s'"
      using ok s unfolding correlator_ok_def by blast
    from b show "registrationRequestId s' \<noteq> Some i"
      using ok r unfolding correlator_ok_def by auto
    from b show "filter (settles i) (sett s) = []"
      using ok unfolding correlator_ok_def by blast
  next
    fix i show "length (filter (settles i) (sett s)) \<le> 1"
      using ok unfolding correlator_ok_def by blast
  qed
qed
text \<open>A new entry under the identifier \<open>nextId\<close> has just returned: the \<open>resolve\<close> of
  a \<open>sendMain\<close> promise together with its timer, or another handler, which may be
  made a subscription or the registration.\<close>

lemma correlator_ok_new:
  assumes ok: "correlator_ok s"
    and n: "msgId s' = Suc (msgId s)"
    and p: "pendingRequests s' = (pendingRequests s)(''msg_'' @ show_nat (Suc (msgId s)) \<mapsto> x)"
    and s: "subscriptionIds s' \<subseteq> insert (''msg_'' @ show_nat (Suc (msgId s))) (subscriptionIds s)"
    and r: "registrationRequestId s' = registrationRequestId s
            \<or> registrationRequestId s' = Some (''msg_'' @ show_nat (Suc (msgId s)))"
    and t: "smt s' = smt s
            \<or> (smt s' = insert (''msg_'' @ show_nat (Suc (msgId s))) (smt s)
                \<and> (\<exists>c. x = Resolver (''msg_'' @ show_nat (Suc (msgId s))) c))"
    and x: "\<And>j c. x = Resolver j c \<Longrightarrow>
              j = ''msg_'' @ show_nat (Suc (msgId s))
              \<and> subscriptionIds s' = subscriptionIds s
              \<and> registrationRequestId s' = registrationRequestId s"
    and e: "sett s' = sett s"
  shows "correlator_ok s'"
proof -
  let ?f = "''msg_'' @ show_nat (Suc (msgId s))"
  have nf: "\<not> old_id s ?f"
    by (rule fresh_not_old)
  have of: "old_id s' ?f"
    using n by (rule old_id_fresh)
  have mono: "\<And>i. old_id s i \<Longrightarrow> old_id s' i"
    using n by (auto intro: old_id_mono)
  from ok have g1: "\<And>i y. pendingRequests s i = Some y \<Longrightarrow> old_id s i"
    and g2: "\<And>i. i \<in> subscriptionIds s \<Longrightarrow> old_id s i"
    and g3: "\<And>i. registrationRequestId s = Some i \<Longrightarrow> old_id s i"
    and g4: "\<And>i. i \<in> smt s \<Longrightarrow> old_id s i"
    and g4': "\<And>i y. i \<in> smt s \<Longrightarrow> pendingRequests s i = Some y \<Longrightarrow> \<exists>c. y = Resolver i c"
    and g5: "\<And>e i. e \<in> set (sett s) \<Longrightarrow> settles i e \<Longrightarrow> old_id s i"
    and g6: "\<And>i j c. pendingRequests s i = Some (Resolver j c) \<Longrightarrow>
               j = i \<and> i \<notin> subscriptionIds s \<and> registrationRequestId s \<noteq> Some i
               \<and> filter (settles i) (sett s) = []"
    and g7: "\<And>i. length (filter (settles i) (sett s)) \<le> 1"
    unfolding correlator_ok_def by blast+
  have nofilter: "filter (settles ?f) (sett s) = []"
    using g5 nf by (auto simp add: filter_empty_conv)
  show ?thesis
    unfolding correlator_ok_def e
  proof (intro conjI allI impI)
    fix i y assume "pendingRequests s' i = Some y"
    then show "old_id s' i"
      using of mono g1 unfolding p by (cases "i = ?f") auto
  next
    fix i assume "i \<in> subscriptionIds s'"
    then show "old_id s' i"
      using s of mono g2 by (cases "i = ?f") auto
  next
    fix i assume "registrationRequestId s' = Some i"
    then show "old_id s' i"
      using r of mono g3 by (cases "i = ?f") auto
  next
    fix i assume "i \<in> smt s'"
    then show "old_id s' i"
      using t of mono g4 by (cases "i = ?f") auto
  next
    fix i y assume a: "i \<in> smt s'" "pendingRequests s' i = Some y"
    show "\<exists>c. y = Resolver i c"
    proof (cases "i = ?f")
      case True
      with a t nf g4 show ?thesis
        unfolding p by auto
    next
      case False
      with a t g4' show ?thesis
        unfolding p by auto
    qed
  next
    fix e i assume "e \<in> set (sett s) \<and> settles i e"
    then show "old_id s' i"
      using g5 mono by blast
  next
    fix i j c assume a: "pendingRequests s' i = Some (Resolver j c)"
    show "j = i"
      using a x g6 unfolding p by (cases "i = ?f") auto
    show "i \<notin> subscriptionIds s'"
    proof (cases "i = ?f")
      case True
      with a x g2 nf show ?thesis
        unfolding p by auto
    next
      case False
      with a g6 s show ?thesis
        unfolding p by auto
    qed
    show "registrationRequestId s' \<noteq> Some i"
    proof (cases "i = ?f")
      case True
      with a x g3 nf show ?thesis
        unfolding p by auto
    next
      case False
      with a g6 r show ?thesis
        unfolding p by auto
    qed
    show "filter (settles i) (sett s) = []"
      using a g6 nofilter unfolding p by (cases "i = ?f") auto
  next
    fix i show "length (filter (settles i) (sett s)) \<le> 1"
      by (rule g7)
  qed
qed

text \<open>The \<open>resolve\<close> of a \<open>sendMain\<close> promise is taken out of the map and the promise is
  settled.\<close>

lemma correlator_ok_settle:
  assumes ok: "correlator_ok s"
    and h: "pendingRequests s i = Some (Resolver j c)"
    and p: "pendingRequests s' = (pendingRequests s)(i := None)"
    and s: "subscriptionIds s' = subscriptionIds s"
    and r: "registrationRequestId s' = registrationRequestId s"
    and n: "msgId s' = msgId s"
    and t: "smt s' \<subseteq> smt s"
    and e: "sett s' = sett s @ [e]" "(\<exists>r. e = Resolved j r) \<or> (\<exists>m. e = Rejected j m)"
  shows "correlator_ok s'"
proof -
  have o: "old_id s' = old_id s"
    by (simp add: old_id_def fun_eq_iff n)
  from ok have g1: "\<And>i y. pendingRequests s i = Some y \<Longrightarrow> old_id s i"
    and g2: "\<And>i. i \<in> subscriptionIds s \<Longrightarrow> old_id s i"
    and g3: "\<And>i. registrationRequestId s = Some i \<Longrightarrow> old_id s i"
    and g4: "\<And>i. i \<in> smt s \<Longrightarrow> old_id s i"
    and g4': "\<And>i y. i \<in> smt s \<Longrightarrow> pendingRequests s i = Some y \<Longrightarrow> \<exists>c. y = Resolver i c"
    and g5: "\<And>e i. e \<in> set (sett s) \<Longrightarrow> settles i e \<Longrightarrow> old_id s i"
    and g6: "\<And>i j c. pendingRequests s i = Some (Resolver j c) \<Longrightarrow>
               j = i \<and> i \<notin> subscriptionIds s \<and> registrationRequestId s \<noteq> Some i
               \<and> filter (settles i) (sett s) = []"
    and g7: "\<And>i. length (filter (settles i) (sett s)) \<le> 1"
    unfolding correlator_ok_def by blast+
  have ji: "j = i" and none: "filter (settles i) (sett s) = []"
    using g6 [OF h] by simp_all
  have se: "\<And>k. settles k e \<longleftrightarrow> k = i"
    using e(2) ji by auto
  show ?thesis
    unfolding correlator_ok_def o e(1) s r
  proof (intro conjI allI impI)
    fix k y assume "pendingRequests s' k = Some y"
    then show "old_id s k"
      using g1 unfolding p by (auto split: if_splits)
  next
    fix k assume "k \<in> subscriptionIds s"
    then show "old_id s k"
      by (rule g2)
  next
    fix k assume "registrationRequestId s = Some k"
    then show "old_id s k"
      by (rule g3)
  next
    fix k assume "k \<in> smt s'"
    then show "old_id s k"
      using t g4 by blast
  next
    fix k y assume "k \<in> smt s'" "pendingRequests s' k = Some y"
    then show "\<exists>c. y = Resolver k c"
      using t g4' unfolding p by (auto split: if_splits)
  next
    fix a k assume "a \<in> set (sett s @ [e]) \<and> settles k a"
    then show "old_id s k"
      using g5 g1 [OF h] se by auto
  next
    fix k l d assume a: "pendingRequests s' k = Some (Resolver l d)"
    then have b: "pendingRequests s k = Some (Resolver l d)" "k \<noteq> i"
      unfolding p by (auto split: if_splits)
    from g6 [OF b(1)] show "l = k" "k \<notin> subscriptionIds s" "registrationRequestId s \<noteq> Some k"
      by simp_all
    from g6 [OF b(1)] b(2) show "filter (settles k) (sett s @ [e]) = []"
      by (simp add: se)
  next
    fix k show "length (filter (settles k) (sett s @ [e])) \<le> 1"
      using g7 [of k] none by (cases "k = i") (simp_all add: se)
  qed
qed

lemma sendMain_ok:
  assumes "req_id m = None" "correlator_ok s"
  shows "correlator_ok (snd (sendMain m c s))"
proof (cases "\<exists>h. mainWs s = Some h \<and> is_open s h")
  case False
  then have "snd (sendMain m c s) = s"
    by (auto simp add: sendMain_def split: option.splits)
  with assms show ?thesis
    by simp
next
  case True
  then obtain h where h: "mainWs s = Some h" "is_open s h"
    by blast
  let ?f = "''msg_'' @ show_nat (Suc (msgId s))"
  show ?thesis
  proof (rule correlator_ok_new [OF assms(2), where x = "Resolver ?f c"])
    show "msgId (snd (sendMain m c s)) = Suc (msgId s)"
      using h assms(1) by (simp add: sendMain_def nextId_def Let_def setTimeout_def emit_def)
    show "pendingRequests (snd (sendMain m c s)) = (pendingRequests s)(?f \<mapsto> Resolver ?f c)"
      using h assms(1) by (simp add: sendMain_def nextId_def Let_def setTimeout_def emit_def)
    show "subscriptionIds (snd (sendMain m c s)) \<subseteq> insert ?f (subscriptionIds s)"
      by auto
    show "registrationRequestId (snd (sendMain m c s)) = registrationRequestId s
            \<or> registrationRequestId (snd (sendMain m c s)) = Some ?f"
      by simp
    show "smt (snd (sendMain m c s)) = smt s
            \<or> (smt (snd (sendMain m c s)) = insert ?f (smt s) \<and> (\<exists>d. Resolver ?f c = Resolver ?f d))"
      using h assms(1) by (simp add: sendMain_def nextId_def Let_def smt_setTimeout)
    show "j = ?f \<and> subscriptionIds (snd (sendMain m c s)) = subscriptionIds s
              \<and> registrationRequestId (snd (sendMain m c s)) = registrationRequestId s"
      if "Resolver ?f c = Resolver j d" for j d
      using that by simp
    show "sett (snd (sendMain m c s)) = sett s"
      by simp
  qed
qed

lemma setupPointerSocket_ok: "correlator_ok s \<Longrightarrow> correlator_ok (setupPointerSocket s)"
  by (simp add: setupPointerSocket_def sendMain_ok)

lemma command_eq:
  "command m s =
     (if status s \<noteq> ready then emit (CommandFailed ''Not connected'') s
      else case fst (sendMain m Command s) of
             Inl e \<Rightarrow> emit (CommandFailed e) (snd (sendMain m Command s))
           | Inr _ \<Rightarrow> snd (sendMain m Command s))"
  by (simp add: command_def split: prod.splits sum.splits)

lemma core_emit_CommandFailed [simp]: "core (emit (CommandFailed e) s) = core s"
  by (simp add: core_def sett_emit)

lemma command_ok:
  assumes "req_id m = None" "correlator_ok s"
  shows "correlator_ok (command m s)"
proof -
  have "core (command m s) = core s \<or> core (command m s) = core (snd (sendMain m Command s))"
    unfolding command_eq by (simp split: sum.splits)
  then show ?thesis
    using correlator_ok_core [of "command m s" s]
      correlator_ok_core [of "command m s" "snd (sendMain m Command s)"]
      sendMain_ok [OF assms, of Command] assms(2)
    by blast
qed

lemma disconnect_ok: "correlator_ok s \<Longrightarrow> correlator_ok (disconnect s)"
  by (rule correlator_ok_shrink [where s = s]) (simp_all add: disconnect_def Let_def)

lemma core_connect: "core (connect ip s) = core (if mainWs s \<noteq> None then disconnect s else s)"
  by (simp add: core_def connect_def loadConfig_def Let_def split: option.splits)

lemma connect_ok: "correlator_ok s \<Longrightarrow> correlator_ok (connect ip s)"
  using correlator_ok_core [OF core_connect] disconnect_ok by (cases "mainWs s = None") auto

lemma core_fail [simp]: "core (fail h m s) = core s"
  by (simp add: core_def)

lemma core_setStatus [simp]: "core (setStatus x s) = core s"
  by (simp add: core_def)

lemma core_succeed [simp]: "core (succeed h s) = core s"
  by (simp add: core_def smt_def)

lemma core_saveConfig [simp]: "core (saveConfig s) = core s"
  by (simp add: core_def smt_def sett_def)

lemma register_ok:
  assumes "correlator_ok s"
  shows "correlator_ok (register h s)"
proof -
  let ?f = "''msg_'' @ show_nat (Suc (msgId s))"
  show ?thesis
  proof (rule correlator_ok_new [OF assms, where x = "RegisterHandler h"])
    show "msgId (register h s) = Suc (msgId s)"
      by (simp add: register_def nextId_def send_json_def Let_def setTimeout_def emit_def
            split: option.splits)
    show "pendingRequests (register h s) = (pendingRequests s)(?f \<mapsto> RegisterHandler h)"
      by (simp add: register_def nextId_def send_json_def Let_def setTimeout_def emit_def
            split: option.splits)
    show "subscriptionIds (register h s) \<subseteq> insert ?f (subscriptionIds s)"
      by auto
    show "registrationRequestId (register h s) = registrationRequestId s
            \<or> registrationRequestId (register h s) = Some ?f"
      by (simp add: register_def nextId_def send_json_def Let_def setTimeout_def emit_def
            split: option.splits)
    show "smt (register h s) = smt s
            \<or> (smt (register h s) = insert ?f (smt s) \<and> (\<exists>d. RegisterHandler h = Resolver ?f d))"
      by simp
    show "j = ?f \<and> subscriptionIds (register h s) = subscriptionIds s
              \<and> registrationRequestId (register h s) = registrationRequestId s"
      if "RegisterHandler h = Resolver j d" for j d
      using that by simp
    show "sett (register h s) = sett s"
      by simp
  qed
qed

lemma onopen_ok: "correlator_ok s \<Longrightarrow> correlator_ok (onopen h s)"
proof -
  assume ok: "correlator_ok s"
  have "core (setStatus pairing (clearTimeout (ConnectTimeout h) s)) = core s"
    by (simp add: core_def)
  from correlator_ok_core [OF this ok] show ?thesis
    unfolding onopen_def by (rule register_ok)
qed
lemma core_send_json: "send_json w m s = Inr s' \<Longrightarrow> core s' = core s"
  by (auto simp add: send_json_def core_def sett_emit split: option.splits if_splits)

lemma correlator_ok_subscription:
  assumes ok: "correlator_ok s" and x: "x = ForegroundAppHandler \<or> x = VolumeHandler"
  shows "correlator_ok
           (s\<lparr>msgId := msgId s + 1,
              subscriptionIds := insert (''msg_'' @ show_nat (msgId s + 1)) (subscriptionIds s),
              pendingRequests := (pendingRequests s)(''msg_'' @ show_nat (msgId s + 1) \<mapsto> x)\<rparr>)"
  using x by (intro correlator_ok_new [OF ok, where x = x]) auto

lemma subscribeToStatus_ok:
  assumes ok: "correlator_ok s"
  shows "correlator_ok (subscribeToStatus s)"
proof -
  define sub :: "handler \<Rightarrow> state \<Rightarrow> state" where "sub = (\<lambda>x s.
           s\<lparr>msgId := msgId s + 1,
              subscriptionIds := insert (''msg_'' @ show_nat (msgId s + 1)) (subscriptionIds s),
              pendingRequests := (pendingRequests s)(''msg_'' @ show_nat (msgId s + 1) \<mapsto> x)\<rparr>)"
  have sub: "correlator_ok (sub x s)" if "correlator_ok s" "x = ForegroundAppHandler \<or> x = VolumeHandler"
    for x s
    unfolding sub_def using that by (rule correlator_ok_subscription)
  have eq: "subscribeToStatus s =
          (case send_json (mainWs (sub ForegroundAppHandler s))
                  \<lparr>req_id = Some (''msg_'' @ show_nat (msgId s + 1)), req_type = ''subscribe'',
                   req_uri = Some ''ssap://com.webos.applicationManager/getForegroundAppInfo'',
                   req_payload = None\<rparr> (sub ForegroundAppHandler s) of
             Inl _ \<Rightarrow> sub ForegroundAppHandler s
           | Inr s4 \<Rightarrow>
               (case send_json (mainWs (sub VolumeHandler s4))
                       \<lparr>req_id = Some (''msg_'' @ show_nat (msgId s4 + 1)), req_type = ''subscribe'',
                        req_uri = Some ''ssap://audio/getVolume'', req_payload = None\<rparr>
                       (sub VolumeHandler s4) of
                  Inl _ \<Rightarrow> sub VolumeHandler s4
                | Inr s8 \<Rightarrow> s8))"
    by (simp add: subscribeToStatus_def nextId_def Let_def sub_def split: sum.splits)
  have 1: "correlator_ok (sub ForegroundAppHandler s)"
    using ok by (rule sub) simp
  show ?thesis
  proof (cases "send_json (mainWs (sub ForegroundAppHandler s))
                  \<lparr>req_id = Some (''msg_'' @ show_nat (msgId s + 1)), req_type = ''subscribe'',
                   req_uri = Some ''ssap://com.webos.applicationManager/getForegroundAppInfo'',
                   req_payload = None\<rparr> (sub ForegroundAppHandler s)")
    case (Inl e)
    with 1 show ?thesis
      unfolding eq by simp
  next
    case (Inr s4)
    from correlator_ok_core [OF core_send_json [OF Inr] 1]
    have 2: "correlator_ok (sub VolumeHandler s4)"
      by (rule sub) simp
    show ?thesis
    proof (cases "send_json (mainWs (sub VolumeHandler s4))
                       \<lparr>req_id = Some (''msg_'' @ show_nat (msgId s4 + 1)), req_type = ''subscribe'',
                        req_uri = Some ''ssap://audio/getVolume'', req_payload = None\<rparr>
                       (sub VolumeHandler s4)")
      case (Inl e)
      with Inr 2 show ?thesis
        unfolding eq by simp
    next
      case s8: (Inr s8)
      from correlator_ok_core [OF core_send_json [OF s8] 2] Inr s8 show ?thesis
        unfolding eq by simp
    qed
  qed
qed

lemma register_handler_ok:
  assumes ok: "correlator_ok s"
  shows "correlator_ok (register_handler h r s)"
proof -
  have 1: "correlator_ok (case returnedClientKey r of Some k \<Rightarrow> s\<lparr>clientKey := Some k\<rparr> | None \<Rightarrow> s)"
    (is "correlator_ok ?s1")
    by (rule correlator_ok_core [OF _ ok]) (simp add: core_def split: option.splits)
  have 2: "correlator_ok (setStatus ready (saveConfig ?s1))"
    by (rule correlator_ok_core [OF _ 1]) simp
  have 3: "correlator_ok (succeed h (subscribeToStatus (setupPointerSocket
              (setStatus ready (saveConfig ?s1)))))"
    by (rule correlator_ok_core [OF core_succeed])
       (intro subscribeToStatus_ok setupPointerSocket_ok 2)
  have 4: "correlator_ok (fail h m (setStatus disconnected s))" for m
    by (rule correlator_ok_core [OF _ ok]) simp
  show ?thesis
    using 3 4 ok by (simp add: register_handler_def Let_def)
qed

lemma register_timeout_ok: "correlator_ok s \<Longrightarrow> correlator_ok (register_timeout i h s)"
proof -
  assume ok: "correlator_ok s"
  have "correlator_ok (s\<lparr>pendingRequests := (pendingRequests s)(i := None),
                         registrationRequestId := None\<rparr>)" (is "correlator_ok ?t")
    by (rule correlator_ok_shrink [OF ok]) (auto split: if_splits)
  then have "correlator_ok (fail h m ?t)" for m
    by (rule correlator_ok_core [OF core_fail])
  with ok show ?thesis
    by (simp add: register_timeout_def)
qed

lemma correlator_ok_resolver:
  "correlator_ok s \<Longrightarrow> pendingRequests s i = Some (Resolver j c) \<Longrightarrow>
     j = i \<and> i \<notin> subscriptionIds s \<and> registrationRequestId s \<noteq> Some i"
  unfolding correlator_ok_def by blast

lemma correlator_ok_timer:
  "correlator_ok s \<Longrightarrow> SendMainTimeout i c \<in> set (timers s) \<Longrightarrow> pendingRequests s i = Some x \<Longrightarrow>
     \<exists>d. x = Resolver i d"
  unfolding correlator_ok_def smt_def by blast

lemma core_setupPointerSocket_resume [simp]: "core (setupPointerSocket_resume r s) = core s"
  by (simp add: core_def smt_def sett_def)

lemma core_foregroundApp_handler [simp]: "core (foregroundApp_handler r s) = core s"
  by (simp add: core_def smt_def)

lemma core_volume_handler [simp]: "core (volume_handler r s) = core s"
  by (simp add: core_def smt_def)

lemma core_unsolicited [simp]: "core (unsolicited r s) = core s"
  by (simp add: core_def smt_def)

lemma handleMainMessage_ok:
  assumes ok: "correlator_ok s"
  shows "correlator_ok (handleMainMessage d s)"
proof (cases d)
  case None
  with ok show ?thesis
    by (simp add: handleMainMessage_def)
next
  case (Some resp)
  show ?thesis
  proof (cases "lookup_handler s resp")
    case None
    then have "handleMainMessage d s = unsolicited resp s"
      by (simp add: handleMainMessage_def Some)
    then show ?thesis
      using correlator_ok_core [OF core_unsolicited ok] by simp
  next
    case x: (Some x)
    then obtain i where i: "resp_id resp = Some i" "pendingRequests s i = Some x"
      by (auto simp add: lookup_handler_def split: option.splits)
    define s1 where "s1 =
        (if i \<notin> subscriptionIds s \<and> registrationRequestId s \<noteq> Some i
         then s\<lparr>pendingRequests := (pendingRequests s)(i := None)\<rparr>
         else if registrationRequestId s = Some i \<and> registrationDone resp
         then s\<lparr>pendingRequests := (pendingRequests s)(i := None), registrationRequestId := None\<rparr>
         else s)"
    have eq: "handleMainMessage d s = invoke x resp s1"
      by (simp add: handleMainMessage_def Some x i s1_def Let_def)
    have ok1: "correlator_ok s1"
      by (rule correlator_ok_shrink [OF ok]) (auto simp add: s1_def split: if_splits)
    show ?thesis
    proof (cases x)
      case (Resolver j c)
      from correlator_ok_resolver [OF ok i(2) [unfolded Resolver]]
      have j: "j = i" "i \<notin> subscriptionIds s" "registrationRequestId s \<noteq> Some i"
        by simp_all
      then have s1: "s1 = s\<lparr>pendingRequests := (pendingRequests s)(i := None)\<rparr>"
        by (simp add: s1_def)
      let ?u = "handleMainMessage d s"
      have u: "?u = (case c of SetupPointerSocket \<Rightarrow> setupPointerSocket_resume resp (emit (Resolved j resp) s1)
                     | Command \<Rightarrow> emit (Resolved j resp) s1)"
        by (simp add: eq Resolver invoke_def Let_def)
      show ?thesis
      proof (rule correlator_ok_settle [OF ok i(2) [unfolded Resolver], where e = "Resolved j resp"])
        show "pendingRequests ?u = (pendingRequests s)(i := None)"
          by (simp add: u s1 split: caller.splits)
        show "subscriptionIds ?u = subscriptionIds s"
          by (simp add: u s1 split: caller.splits)
        show "registrationRequestId ?u = registrationRequestId s"
          by (simp add: u s1 split: caller.splits)
        show "msgId ?u = msgId s"
          by (simp add: u s1 split: caller.splits)
        show "smt ?u \<subseteq> smt s"
          by (simp add: u s1 smt_def split: caller.splits)
        show "sett ?u = sett s @ [Resolved j resp]"
          by (simp add: u s1 sett_def split: caller.splits)
        show "(\<exists>r. Resolved j resp = Resolved j r) \<or> (\<exists>m. Resolved j resp = Rejected j m)"
          by simp
      qed
    next
      case (RegisterHandler h)
      then show ?thesis
        using register_handler_ok [OF ok1] by (simp add: eq invoke_def)
    next
      case ForegroundAppHandler
      then show ?thesis
        using correlator_ok_core [OF core_foregroundApp_handler ok1] by (simp add: eq invoke_def)
    next
      case VolumeHandler
      then show ?thesis
        using correlator_ok_core [OF core_volume_handler ok1] by (simp add: eq invoke_def)
    qed
  qed
qed

lemma smt_remove1: "smt (s\<lparr>timers := remove1 t (timers s)\<rparr>) \<subseteq> smt s"
  by (auto simp add: smt_def dest: set_remove1_subset [THEN subsetD])

lemma timer_ok:
  assumes ok: "correlator_ok s" and t: "t \<in> set (timers s)"
  shows "correlator_ok (run_timer t (s\<lparr>timers := remove1 t (timers s)\<rparr>))"
proof -
  let ?s0 = "s\<lparr>timers := remove1 t (timers s)\<rparr>"
  have ok0: "correlator_ok ?s0"
    by (rule correlator_ok_shrink [OF ok]) (simp_all add: smt_remove1 sett_def)
  show ?thesis
  proof (cases t)
    case (ConnectTimeout h)
    have "core (connect_timeout h ?s0) = core ?s0"
      by (simp add: core_def)
    from correlator_ok_core [OF this ok0] show ?thesis
      by (simp add: run_timer_def ConnectTimeout)
  next
    case (RegisterTimeout i h)
    then show ?thesis
      using register_timeout_ok [OF ok0] by (simp add: run_timer_def)
  next
    case ClickRelease
    have "core (click_release ?s0) = core ?s0"
      by (simp add: core_def smt_def)
    from correlator_ok_core [OF this ok0] show ?thesis
      by (simp add: run_timer_def ClickRelease)
  next
    case (SendMainTimeout i c)
    show ?thesis
    proof (cases "pendingRequests s i")
      case None
      then show ?thesis
        using ok0 by (simp add: run_timer_def SendMainTimeout sendMain_timeout_def)
    next
      case (Some x)
      with correlator_ok_timer [OF ok t [unfolded SendMainTimeout]]
      obtain d where x: "pendingRequests s i = Some (Resolver i d)"
        by blast
      let ?u = "run_timer t ?s0"
      have u: "?u = emit (Rejected i (''Request '' @ i @ '' timed out''))
                      (?s0\<lparr>pendingRequests := (pendingRequests ?s0)(i := None)\<rparr>)"
        using x by (simp add: run_timer_def SendMainTimeout sendMain_timeout_def)
      show ?thesis
      proof (rule correlator_ok_settle [OF ok x,
               where e = "Rejected i (''Request '' @ i @ '' timed out'')"])
        show "pendingRequests ?u = (pendingRequests s)(i := None)"
          by (simp add: u)
        show "subscriptionIds ?u = subscriptionIds s"
          by (simp add: u)
        show "registrationRequestId ?u = registrationRequestId s"
          by (simp add: u)
        show "msgId ?u = msgId s"
          by (simp add: u)
        show "smt ?u \<subseteq> smt s"
          unfolding u using smt_remove1 [where s = s and t = t] by simp
        show "sett ?u = sett s @ [Rejected i (''Request '' @ i @ '' timed out'')]"
          by (simp add: u sett_emit sett_def)
        show "(\<exists>r. Rejected i (''Request '' @ i @ '' timed out'') = Resolved i r)
              \<or> (\<exists>m. Rejected i (''Request '' @ i @ '' timed out'') = Rejected i m)"
          by simp
      qed
    qed
  qed
qed

lemma step_ok:
  assumes ok: "correlator_ok s"
  shows "correlator_ok (step e s)"
proof (cases e)
  case CallSetStatusCallback
  have "core (setStatusCallback s) = core s"
    by (simp add: core_def smt_def sett_def)
  from correlator_ok_core [OF this ok] show ?thesis
    by (simp add: step_def CallSetStatusCallback)
next
  case (CallConnect ip)
  then show ?thesis
    using connect_ok [OF ok] by (simp add: step_def)
next
  case CallDisconnect
  then show ?thesis
    using disconnect_ok [OF ok] by (simp add: step_def)
next
  case (CallSendButton k)
  then show ?thesis
    using command_ok [OF _ ok] by (simp add: step_def sendButton_def)
next
  case (CallSendInput k)
  then show ?thesis
    using command_ok [OF _ ok] by (simp add: step_def sendInput_def)
next
  case (CallMoveMouse dx dy)
  have "core (moveMouse dx dy s) = core s"
    by (simp add: core_def smt_def)
  from correlator_ok_core [OF this ok] show ?thesis
    by (simp add: step_def CallMoveMouse)
next
  case CallClick
  have "core (click s) = core s"
    by (simp add: core_def)
  from correlator_ok_core [OF this ok] show ?thesis
    by (simp add: step_def CallClick)
next
  case (WsOpen h)
  have 1: "correlator_ok (set_readyState h OPEN s)"
    by (rule correlator_ok_core [OF _ ok]) (simp add: core_def smt_def sett_def)
  from onopen_ok [OF 1] 1 ok show ?thesis
    by (simp add: step_def WsOpen Let_def)
next
  case (WsMessage h d)
  then show ?thesis
    using handleMainMessage_ok [OF ok] ok by (simp add: step_def)
next
  case (WsError h d)
  have "core (onerror h d s) = core s"
    by (simp add: core_def)
  from correlator_ok_core [OF this ok] ok show ?thesis
    by (simp add: step_def WsError)
next
  case (WsClose h)
  have 1: "core (set_readyState h CLOSED s) = core s"
    by (simp add: core_def smt_def sett_def)
  have "core (onclose h (set_readyState h CLOSED s)) = core s"
    using 1 by (simp add: core_def)
  from this ok have 2: "correlator_ok (onclose h (set_readyState h CLOSED s))"
    by (rule correlator_ok_core)
  have "core ((set_readyState h CLOSED s)\<lparr>pointerWs := None\<rparr>) = core s"
    using 1 by (simp add: core_def)
  from this ok have 3: "correlator_ok ((set_readyState h CLOSED s)\<lparr>pointerWs := None\<rparr>)"
    by (rule correlator_ok_core)
  from 2 3 ok show ?thesis
    by (simp add: step_def WsClose Let_def)
next
  case (Timer t)
  then show ?thesis
    using timer_ok [OF ok] ok by (simp add: step_def)
qed

lemma run_ok: "correlator_ok s \<Longrightarrow> correlator_ok (run evs s)"
  by (induction evs arbitrary: s) (simp_all add: step_ok)

lemma reachable_ok: "reachable s \<Longrightarrow> correlator_ok s"
  by (auto simp add: reachable_def intro: run_ok correlator_ok_initial)

subsection \<open>Entries under identifiers already handed out\<close>

lemma old_id_neq: "old_id s i \<Longrightarrow> msgId s < k \<Longrightarrow> i \<noteq> ''msg_'' @ show_nat k"
  by (auto simp add: old_id_def dest: show_nat_inject)

lemma pending_old_sendMain:
  assumes "req_id m = None" "old_id s i"
  shows "pendingRequests (snd (sendMain m c s)) i = pendingRequests s i"
  using assms old_id_neq [OF assms(2), of "Suc (msgId s)"]
  by (simp add: sendMain_def nextId_def Let_def setTimeout_def emit_def split: option.splits)

lemma msgId_sendMain: "msgId s \<le> msgId (snd (sendMain m c s))"
  by (simp add: sendMain_def nextId_def Let_def setTimeout_def emit_def
        split: option.splits prod.splits)

lemma send_json_pending:
  "send_json w m s = Inr s' \<Longrightarrow> pendingRequests s' = pendingRequests s \<and> msgId s' = msgId s"
  by (auto simp add: send_json_def split: option.splits if_splits)

lemma subscribeToStatus_eq:
  fixes sub :: "handler \<Rightarrow> state \<Rightarrow> state"
  assumes "sub = (\<lambda>x s.
           s\<lparr>msgId := msgId s + 1,
              subscriptionIds := insert (''msg_'' @ show_nat (msgId s + 1)) (subscriptionIds s),
              pendingRequests := (pendingRequests s)(''msg_'' @ show_nat (msgId s + 1) \<mapsto> x)\<rparr>)"
  shows "subscribeToStatus s =
          (case send_json (mainWs (sub ForegroundAppHandler s))
                  \<lparr>req_id = Some (''msg_'' @ show_nat (msgId s + 1)), req_type = ''subscribe'',
                   req_uri = Some ''ssap://com.webos.applicationManager/getForegroundAppInfo'',
                   req_payload = None\<rparr> (sub ForegroundAppHandler s) of
             Inl _ \<Rightarrow> sub ForegroundAppHandler s
           | Inr s4 \<Rightarrow>
               (case send_json (mainWs (sub VolumeHandler s4))
                       \<lparr>req_id = Some (''msg_'' @ show_nat (msgId s4 + 1)), req_type = ''subscribe'',
                        req_uri = Some ''ssap://audio/getVolume'', req_payload = None\<rparr>
                       (sub VolumeHandler s4) of
                  Inl _ \<Rightarrow> sub VolumeHandler s4
                | Inr s8 \<Rightarrow> s8))"
  by (simp add: subscribeToStatus_def nextId_def Let_def assms split: sum.splits)

lemma pending_old_subscribeToStatus:
  assumes o: "old_id s i"
  shows "pendingRequests (subscribeToStatus s) i = pendingRequests s i"
proof -
  define sub :: "handler \<Rightarrow> state \<Rightarrow> state" where "sub = (\<lambda>x s.
           s\<lparr>msgId := msgId s + 1,
              subscriptionIds := insert (''msg_'' @ show_nat (msgId s + 1)) (subscriptionIds s),
              pendingRequests := (pendingRequests s)(''msg_'' @ show_nat (msgId s + 1) \<mapsto> x)\<rparr>)"
  note eq = subscribeToStatus_eq [OF sub_def]
  have sub: "pendingRequests (sub x t) i = pendingRequests t i" "msgId (sub x t) = Suc (msgId t)"
    if "old_id t i" for x t
    using old_id_neq [OF that, of "Suc (msgId t)"] by (simp_all add: sub_def)
  have mono: "old_id t i" if "msgId s \<le> msgId t" for t
    using o that by (rule old_id_mono)
  show ?thesis
  proof (cases "send_json (mainWs (sub ForegroundAppHandler s))
                  \<lparr>req_id = Some (''msg_'' @ show_nat (msgId s + 1)), req_type = ''subscribe'',
                   req_uri = Some ''ssap://com.webos.applicationManager/getForegroundAppInfo'',
                   req_payload = None\<rparr> (sub ForegroundAppHandler s)")
    case (Inl e)
    then show ?thesis
      unfolding eq using sub(1) [OF o] by simp
  next
    case (Inr s4)
    from send_json_pending [OF Inr] sub [OF o, of ForegroundAppHandler]
    have s4: "pendingRequests s4 i = pendingRequests s i" "msgId s4 = Suc (msgId s)"
      by simp_all
    have o4: "old_id s4 i"
      by (rule mono) (simp add: s4)
    show ?thesis
    proof (cases "send_json (mainWs (sub VolumeHandler s4))
                       \<lparr>req_id = Some (''msg_'' @ show_nat (msgId s4 + 1)), req_type = ''subscribe'',
                        req_uri = Some ''ssap://audio/getVolume'', req_payload = None\<rparr>
                       (sub VolumeHandler s4)")
      case (Inl e)
      with Inr show ?thesis
        unfolding eq using sub(1) [OF o4] s4 by simp
    next
      case s8: (Inr s8)
      from send_json_pending [OF s8] sub(1) [OF o4, of VolumeHandler] s4
      have "pendingRequests s8 i = pendingRequests s i"
        by simp
      with Inr s8 show ?thesis
        unfolding eq by simp
    qed
  qed
qed

lemma pending_old_register_handler:
  assumes o: "old_id s i"
  shows "pendingRequests (register_handler h r s) i = pendingRequests s i"
proof -
  let ?s1 = "case returnedClientKey r of Some k \<Rightarrow> s\<lparr>clientKey := Some k\<rparr> | None \<Rightarrow> s"
  let ?s3 = "setStatus ready (saveConfig ?s1)"
  have 3: "pendingRequests ?s3 = pendingRequests s" "msgId ?s3 = msgId s"
    by (simp_all split: option.splits)
  then have o3: "old_id ?s3 i"
    using o by (simp add: old_id_def)
  have 4: "pendingRequests (setupPointerSocket ?s3) i = pendingRequests s i"
    unfolding setupPointerSocket_def using pending_old_sendMain [OF _ o3] 3 by simp
  have "old_id (setupPointerSocket ?s3) i"
    unfolding setupPointerSocket_def by (rule old_id_mono [OF o3]) (rule msgId_sendMain)
  from pending_old_subscribeToStatus [OF this] 4
  have "pendingRequests (succeed h (subscribeToStatus (setupPointerSocket ?s3))) i =
          pendingRequests s i"
    by simp
  then show ?thesis
    by (simp add: register_handler_def Let_def)
qed

lemma pending_old_invoke:
  assumes o: "old_id s i"
  shows "pendingRequests (invoke x r s) i = pendingRequests s i"
  using pending_old_register_handler [OF o]
  by (cases x) (simp_all add: invoke_def Let_def split: caller.splits)

subsection \<open>The pending map\<close>

text \<open>
  C5, as the code has it. \<open>pendingRequests\<close> is a map, so an identifier has at most one
  entry. In any state the event loop can reach, when a response finds a handler under
  its identifier, the handler is called and afterwards the entry is gone, unless the
  identifier is a subscription or the registration; the entry of the registration goes
  once the response is final (type \<open>registered\<close> or \<open>error\<close>, or a string
  \<open>client-key\<close>). In the other cases the entry stays as it was.
\<close>

theorem response_removes_entry:
  assumes "reachable s" and "resp_id resp = Some i" and "pendingRequests s i = Some x"
  shows "handleMainMessage (Some resp) s =
           invoke x resp
             (if i \<notin> subscriptionIds s \<and> registrationRequestId s \<noteq> Some i
              then s\<lparr>pendingRequests := (pendingRequests s)(i := None)\<rparr>
              else if registrationRequestId s = Some i \<and> registrationDone resp
              then s\<lparr>pendingRequests := (pendingRequests s)(i := None),
                     registrationRequestId := None\<rparr>
              else s)
         \<and> pendingRequests (handleMainMessage (Some resp) s) i =
             (if (i \<notin> subscriptionIds s \<and> registrationRequestId s \<noteq> Some i)
                 \<or> (registrationRequestId s = Some i \<and> registrationDone resp)
              then None else Some x)"
proof -
  let ?s1 = "if i \<notin> subscriptionIds s \<and> registrationRequestId s \<noteq> Some i
              then s\<lparr>pendingRequests := (pendingRequests s)(i := None)\<rparr>
              else if registrationRequestId s = Some i \<and> registrationDone resp
              then s\<lparr>pendingRequests := (pendingRequests s)(i := None),
                     registrationRequestId := None\<rparr>
              else s"
  have eq: "handleMainMessage (Some resp) s = invoke x resp ?s1"
    using assms(2,3) by (simp add: handleMainMessage_def lookup_handler_def Let_def)
  have "old_id s i"
    using reachable_ok [OF assms(1)] assms(3) unfolding correlator_ok_def by blast
  then have "old_id ?s1 i"
    by (simp add: old_id_def)
  from pending_old_invoke [OF this]
  have "pendingRequests (invoke x resp ?s1) i = pendingRequests ?s1 i" .
  with eq assms(3) show ?thesis
    by simp
qed

theorem response_removes_entry_witness:
  "reachable (run (session @ [CallSendButton ''HOME'']) (fresh None))
   \<and> pendingRequests (run (session @ [CallSendButton ''HOME'']) (fresh None)) ''msg_5'' =
       Some (Resolver ''msg_5'' Command)
   \<and> pendingRequests (handleMainMessage (Some (msg_response ''msg_5'' []))
        (run (session @ [CallSendButton ''HOME'']) (fresh None))) ''msg_5'' = None
   \<and> pendingRequests (run (session @ [CallSendButton ''HOME'']) (fresh None)) ''msg_3'' =
       Some ForegroundAppHandler
   \<and> pendingRequests (handleMainMessage (Some (msg_response ''msg_3'' [(''appId'', JStr ''youtube'')]))
        (run (session @ [CallSendButton ''HOME'']) (fresh None))) ''msg_3'' =
       Some ForegroundAppHandler"
proof -
  let ?s = "run (session @ [CallSendButton ''HOME'']) (fresh None)"
  have r: "reachable ?s"
    unfolding reachable_def fresh_def by blast
  have p: "pendingRequests ?s ''msg_5'' = Some (Resolver ''msg_5'' Command)"
    "pendingRequests ?s ''msg_3'' = Some ForegroundAppHandler"
    by code_simp+
  have m: "''msg_5'' \<notin> subscriptionIds ?s" "registrationRequestId ?s \<noteq> Some ''msg_5''"
    "''msg_3'' \<in> subscriptionIds ?s" "registrationRequestId ?s \<noteq> Some ''msg_3''"
    by code_simp+
  have i: "resp_id (msg_response ''msg_5'' []) = Some ''msg_5''"
    "resp_id (msg_response ''msg_3'' [(''appId'', JStr ''youtube'')]) = Some ''msg_3''"
    by (simp_all add: msg_response_def)
  from response_removes_entry [OF r i(1) p(1), THEN conjunct2] m
  have 1: "pendingRequests (handleMainMessage (Some (msg_response ''msg_5'' [])) ?s) ''msg_5'' = None"
    by (simp del: run.simps)
  from response_removes_entry [OF r i(2) p(2), THEN conjunct2] m
  have 2: "pendingRequests (handleMainMessage
             (Some (msg_response ''msg_3'' [(''appId'', JStr ''youtube'')])) ?s) ''msg_3'' =
           Some ForegroundAppHandler"
    by (simp del: run.simps)
  from r p 1 2 show ?thesis
    by blast
qed

text \<open>
  The claim that every response to something other than a subscription takes its entry
  out fails for the handshake: the television first answers the \<open>register\<close> request
  with a \<open>response\<close> that announces the prompt. The handler of \<open>register\<close> is called
  with it, and its entry stays for the final answer.
\<close>

theorem prompt_keeps_registration_entry:
  "lookup_handler (run [CallConnect ''10.0.0.5'', WsOpen 0] (fresh None))
      (msg_response ''msg_1'' [(''pairingType'', JStr ''PROMPT'')]) = Some (RegisterHandler 0)
   \<and> ''msg_1'' \<notin> subscriptionIds (run [CallConnect ''10.0.0.5'', WsOpen 0] (fresh None))
   \<and> pendingRequests
        (step (WsMessage 0 (Some (msg_response ''msg_1'' [(''pairingType'', JStr ''PROMPT'')])))
           (run [CallConnect ''10.0.0.5'', WsOpen 0] (fresh None))) ''msg_1'' =
       Some (RegisterHandler 0)"
  by code_simp

subsection \<open>Timeouts of the correlator\<close>

lemma settles_filter: "filter (settles i) (filter is_settle xs) = filter (settles i) xs"
  by (induction xs) (auto dest: settles_is_settle)

lemma settled_once:
  assumes "reachable s"
  shows "length (filter (settles i) (effects s)) \<le> 1"
proof -
  have "length (filter (settles i) (sett s)) \<le> 1"
    using reachable_ok [OF assms] unfolding correlator_ok_def by blast
  then show ?thesis
    unfolding sett_def settles_filter .
qed

lemma guarded_update [simp]:
  "guarded (s\<lparr>mainWs := v0\<rparr>) t = guarded s t"
  "guarded (s\<lparr>pointerWs := v1\<rparr>) t = guarded s t"
  "guarded (s\<lparr>status := v2\<rparr>) t = guarded s t"
  "guarded (s\<lparr>tvIp := v3\<rparr>) t = guarded s t"
  "guarded (s\<lparr>clientKey := v4\<rparr>) t = guarded s t"
  "guarded (s\<lparr>subscriptionIds := v7\<rparr>) t = guarded s t"
  "guarded (s\<lparr>registrationRequestId := v8\<rparr>) t = guarded s t"
  "guarded (s\<lparr>currentApp := v9\<rparr>) t = guarded s t"
  "guarded (s\<lparr>volume := v10\<rparr>) t = guarded s t"
  "guarded (s\<lparr>muted := v11\<rparr>) t = guarded s t"
  "guarded (s\<lparr>onStatusChange := v12\<rparr>) t = guarded s t"
  "guarded (s\<lparr>sockets := v13\<rparr>) t = guarded s t"
  "guarded (s\<lparr>timers := v14\<rparr>) t = guarded s t"
  "guarded (s\<lparr>store := v15\<rparr>) t = guarded s t"
  "guarded (s\<lparr>fsWritable := v16\<rparr>) t = guarded s t"
  "guarded (s\<lparr>wsCtorError := v17\<rparr>) t = guarded s t"
  "guarded (s\<lparr>int16Checked := v18\<rparr>) t = guarded s t"
  "guarded (s\<lparr>LG_HANDSHAKE_PAYLOAD := v19\<rparr>) t = guarded s t"
  "guarded (s\<lparr>effects := v20\<rparr>) t = guarded s t"
  by (cases t; simp add: old_id_def)+

lemma guarded_same:
  "msgId u = msgId t \<Longrightarrow> pendingRequests u = pendingRequests t \<Longrightarrow> guarded u x = guarded t x"
  by (cases x) (simp_all add: old_id_def)

lemma guarded_plain [simp]:
  "guarded (emit e t) x = guarded t x"
  "guarded (ws_close h t) x = guarded t x"
  "guarded (close_opt w t) x = guarded t x"
  "guarded (set_readyState h r t) x = guarded t x"
  "guarded (setStatusCallback t) x = guarded t x"
  "guarded (notify t) x = guarded t x"
  "guarded (setStatus st t) x = guarded t x"
  "guarded (saveConfig t) x = guarded t x"
  "guarded (connect_catch t) x = guarded t x"
  "guarded (succeed h t) x = guarded t x"
  "guarded (setupPointerSocket_resume resp t) x = guarded t x"
  "guarded (foregroundApp_handler resp t) x = guarded t x"
  "guarded (volume_handler resp t) x = guarded t x"
  "guarded (unsolicited resp t) x = guarded t x"
  "guarded (moveMouse dx dy t) x = guarded t x"
  "guarded (click_release t) x = guarded t x"
  "guarded (clearTimeout y t) x = guarded t x"
  "guarded (setTimeout y t) x = guarded t x"
  by (rule guarded_same; simp)+

lemma grows_update [simp]:
  "grows D s (t\<lparr>mainWs := v0\<rparr>) = grows D s t"
  "grows D s (t\<lparr>pointerWs := v1\<rparr>) = grows D s t"
  "grows D s (t\<lparr>status := v2\<rparr>) = grows D s t"
  "grows D s (t\<lparr>tvIp := v3\<rparr>) = grows D s t"
  "grows D s (t\<lparr>clientKey := v4\<rparr>) = grows D s t"
  "grows D s (t\<lparr>subscriptionIds := v5\<rparr>) = grows D s t"
  "grows D s (t\<lparr>registrationRequestId := v6\<rparr>) = grows D s t"
  "grows D s (t\<lparr>currentApp := v7\<rparr>) = grows D s t"
  "grows D s (t\<lparr>volume := v8\<rparr>) = grows D s t"
  "grows D s (t\<lparr>muted := v9\<rparr>) = grows D s t"
  "grows D s (t\<lparr>onStatusChange := v10\<rparr>) = grows D s t"
  "grows D s (t\<lparr>sockets := v11\<rparr>) = grows D s t"
  "grows D s (t\<lparr>store := v12\<rparr>) = grows D s t"
  "grows D s (t\<lparr>fsWritable := v13\<rparr>) = grows D s t"
  "grows D s (t\<lparr>wsCtorError := v14\<rparr>) = grows D s t"
  "grows D s (t\<lparr>int16Checked := v15\<rparr>) = grows D s t"
  "grows D s (t\<lparr>LG_HANDSHAKE_PAYLOAD := v16\<rparr>) = grows D s t"
  "grows D s (t\<lparr>effects := v17\<rparr>) = grows D s t"
  by (simp_all add: grows_def)

lemma grows_refl [simp]: "grows D s s"
  by (simp add: grows_def)

lemma growsD:
  assumes "grows D s s'"
  shows "msgId s \<le> msgId s'"
    and "\<And>i. old_id s i \<Longrightarrow>
           pendingRequests s' i = pendingRequests s i \<or> (i \<in> D \<and> pendingRequests s' i = None)"
    and "\<And>t. t \<in> set (timers s') \<Longrightarrow> t \<in> set (timers s) \<or> guarded s' t"
    and "\<And>i c. SendMainTimeout i c \<in> set (timers s) \<Longrightarrow> SendMainTimeout i c \<in> set (timers s')"
    and "\<And>i c. pendingRequests s' i = Some (Resolver i c) \<Longrightarrow>
           pendingRequests s i = Some (Resolver i c) \<or> SendMainTimeout i c \<in> set (timers s')"
  using assms unfolding grows_def by simp_all

lemma guarded_grows:
  assumes "guarded s t" "grows D s s'"
  shows "guarded s' t"
proof -
  note m = growsD(1) [OF assms(2)]
  show ?thesis
  proof (cases t)
    case (SendMainTimeout i c)
    with assms(1) have o: "old_id s i"
      and e: "pendingRequests s i = None \<or> pendingRequests s i = Some (Resolver i c)"
      by simp_all
    from growsD(2) [OF assms(2) o] e old_id_mono [OF o m] show ?thesis
      unfolding SendMainTimeout by auto
  next
    case (RegisterTimeout i h)
    with assms(1) have o: "old_id s i"
      and e: "pendingRequests s i = None \<or> pendingRequests s i = Some (RegisterHandler h)"
      by simp_all
    from growsD(2) [OF assms(2) o] e old_id_mono [OF o m] show ?thesis
      unfolding RegisterTimeout by auto
  qed simp_all
qed

lemma grows_trans:
  assumes a: "grows D s t" and b: "grows D' t u"
  shows "grows (D \<union> D') s u"
  unfolding grows_def
proof (intro conjI allI impI ballI)
  from growsD(1) [OF a] growsD(1) [OF b] show "msgId s \<le> msgId u"
    by (rule order_trans)
next
  fix i assume o: "old_id s i"
  have o': "old_id t i"
    by (rule old_id_mono [OF o growsD(1) [OF a]])
  from growsD(2) [OF a o] growsD(2) [OF b o']
  show "pendingRequests u i = pendingRequests s i \<or> (i \<in> D \<union> D' \<and> pendingRequests u i = None)"
    by auto
next
  fix x assume x: "x \<in> set (timers u)"
  show "x \<in> set (timers s) \<or> guarded u x"
  proof (cases "x \<in> set (timers t)")
    case True
    from growsD(3) [OF a True] guarded_grows [OF _ b] show ?thesis
      by blast
  next
    case False
    with growsD(3) [OF b x] show ?thesis
      by blast
  qed
next
  fix i c assume "SendMainTimeout i c \<in> set (timers s)"
  then show "SendMainTimeout i c \<in> set (timers u)"
    by (intro growsD(4) [OF b] growsD(4) [OF a])
next
  fix i c assume u: "pendingRequests u i = Some (Resolver i c)"
  show "pendingRequests s i = Some (Resolver i c) \<or> SendMainTimeout i c \<in> set (timers u)"
  proof (cases "pendingRequests t i = Some (Resolver i c)")
    case True
    from growsD(5) [OF a True] growsD(4) [OF b] show ?thesis
      by blast
  next
    case False
    with growsD(5) [OF b u] show ?thesis
      by blast
  qed
qed

lemma grows_mono: "grows D s t \<Longrightarrow> D \<subseteq> D' \<Longrightarrow> grows D' s t"
  unfolding grows_def by blast

lemma grows_then: "grows D s t \<Longrightarrow> grows {} t u \<Longrightarrow> grows D s u"
  using grows_trans [of D s t "{}" u] by simp

lemma grows_same:
  "msgId u = msgId t \<Longrightarrow> pendingRequests u = pendingRequests t \<Longrightarrow> timers u = timers t \<Longrightarrow>
     grows {} t u"
  by (simp add: grows_def)

text \<open>Functions that touch neither the counter, nor the map, nor the timers.\<close>

lemma grows_plain [simp]:
  "grows D s (emit e t) = grows D s t"
  "grows D s (ws_close h t) = grows D s t"
  "grows D s (close_opt w t) = grows D s t"
  "grows D s (set_readyState h r t) = grows D s t"
  "grows D s (setStatusCallback t) = grows D s t"
  "grows D s (notify t) = grows D s t"
  "grows D s (setStatus x t) = grows D s t"
  "grows D s (saveConfig t) = grows D s t"
  "grows D s (connect_catch t) = grows D s t"
  "grows D s (succeed h t) = grows D s t"
  "grows D s (setupPointerSocket_resume resp t) = grows D s t"
  "grows D s (foregroundApp_handler resp t) = grows D s t"
  "grows D s (volume_handler resp t) = grows D s t"
  "grows D s (unsolicited resp t) = grows D s t"
  "grows D s (moveMouse dx dy t) = grows D s t"
  "grows D s (click_release t) = grows D s t"
  by (simp_all add: grows_def)

text \<open>The timers of a connection attempt and of \<open>click\<close> guard no entry.\<close>

lemma grows_timers [simp]:
  "grows D s (clearTimeout (ConnectTimeout h) t) = grows D s t"
  "grows D s (setTimeout (ConnectTimeout h) t) = grows D s t"
  "grows D s (setTimeout ClickRelease t) = grows D s t"
  by (auto simp add: grows_def clearTimeout_def setTimeout_def)

lemma grows_connectWebSocket [simp]: "grows D s (connectWebSocket u us errs t) = grows D s t"
  by (simp add: connectWebSocket_def Let_def)

lemma grows_connect_loop [simp]: "grows D s (connect_loop us errs t) = grows D s t"
  by (induction us arbitrary: errs t) (simp_all add: Let_def split: option.splits)

lemma grows_fail [simp]: "grows D s (fail h m t) = grows D s t"
  by (simp add: fail_def Let_def)

lemma grows_click [simp]: "grows D s (click t) = grows D s t"
  by (simp add: click_def split: option.splits)

lemma grows_socket_callbacks [simp]:
  "grows D s (onerror h d t) = grows D s t"
  "grows D s (onclose h t) = grows D s t"
  "grows D s (connect_timeout h t) = grows D s t"
  by (simp_all add: onerror_def onclose_def connect_timeout_def Let_def)

lemma grows_send_json: "send_json w m t = Inr t' \<Longrightarrow> grows D s t' = grows D s t"
  by (auto simp add: send_json_def split: option.splits if_splits)

text \<open>\<open>disconnect\<close> empties the map and leaves the timers alone.\<close>

lemma disconnect_grows: "grows UNIV t (disconnect t)"
  by (simp add: grows_def disconnect_def Let_def)

lemma connect_grows: "grows UNIV t (connect ip t)"
proof -
  show ?thesis
  proof (cases "mainWs t")
    case None
    then show ?thesis
      by (simp add: connect_def loadConfig_def Let_def split: option.splits)
  next
    case (Some h)
    with disconnect_grows [of t] show ?thesis
      by (simp add: connect_def loadConfig_def Let_def split: option.splits)
  qed
qed

lemma connect_grows_idle: "mainWs t = None \<Longrightarrow> grows {} t (connect ip t)"
  by (simp add: connect_def loadConfig_def Let_def split: option.splits)

text \<open>A new entry under the identifier \<open>nextId\<close> has just returned.\<close>

lemma grows_new:
  assumes n: "msgId u = Suc (msgId t)"
    and p: "pendingRequests u = (pendingRequests t)(''msg_'' @ show_nat (Suc (msgId t)) \<mapsto> x)"
    and m: "timers u = timers t \<or> (\<exists>y. timers u = timers t @ [y] \<and> guarded u y)"
    and r: "\<And>c. x = Resolver (''msg_'' @ show_nat (Suc (msgId t))) c \<Longrightarrow>
              SendMainTimeout (''msg_'' @ show_nat (Suc (msgId t))) c \<in> set (timers u)"
  shows "grows {} t u"
  unfolding grows_def
proof (intro conjI allI impI ballI)
  show "msgId t \<le> msgId u"
    using n by simp
next
  fix i assume "old_id t i"
  from old_id_neq [OF this, of "Suc (msgId t)"]
  show "pendingRequests u i = pendingRequests t i \<or> (i \<in> {} \<and> pendingRequests u i = None)"
    unfolding p by simp
next
  fix y assume "y \<in> set (timers u)"
  with m show "y \<in> set (timers t) \<or> guarded u y"
    by auto
next
  fix i c assume "SendMainTimeout i c \<in> set (timers t)"
  with m show "SendMainTimeout i c \<in> set (timers u)"
    by auto
next
  fix i c assume "pendingRequests u i = Some (Resolver i c)"
  with r show "pendingRequests t i = Some (Resolver i c) \<or> SendMainTimeout i c \<in> set (timers u)"
    unfolding p by (cases "i = ''msg_'' @ show_nat (Suc (msgId t))") auto
qed

lemma sendMain_fresh:
  assumes "req_id m = None" "sendMain m c t = (Inr i, u)"
  shows "i = ''msg_'' @ show_nat (Suc (msgId t))"
    and "msgId u = Suc (msgId t)"
    and "pendingRequests u = (pendingRequests t)(i \<mapsto> Resolver i c)"
    and "timers u = timers t @ [SendMainTimeout i c]"
    and "\<exists>h. mainWs t = Some h \<and> is_open t h
             \<and> effects u = effects t @ [SentJson h (m\<lparr>req_id := Some i\<rparr>)]"
  using assms
  by (auto simp add: sendMain_def nextId_def Let_def setTimeout_def emit_def
        split: option.splits if_splits)

lemma sendMain_refused:
  assumes "sendMain m c t = (Inl e, u)"
  shows "u = t"
  using assms
  by (auto simp add: sendMain_def nextId_def Let_def split: option.splits if_splits prod.splits)

lemma sendMain_grows:
  assumes "req_id m = None"
  shows "grows {} t (snd (sendMain m c t))"
proof (cases "sendMain m c t")
  case (Pair r u)
  show ?thesis
  proof (cases r)
    case (Inl e)
    with Pair sendMain_refused show ?thesis
      by fastforce
  next
    case (Inr i)
    note f = sendMain_fresh [OF assms Pair [unfolded Inr]]
    have "grows {} t u"
    proof (rule grows_new)
      show "msgId u = Suc (msgId t)"
        by (rule f(2))
      show "pendingRequests u = (pendingRequests t)(''msg_'' @ show_nat (Suc (msgId t)) \<mapsto> Resolver i c)"
        using f(3) unfolding f(1) [symmetric] .
      have "old_id u i"
        unfolding f(1) by (rule old_id_fresh [OF f(2)])
      then have "guarded u (SendMainTimeout i c)"
        by (simp add: f(3))
      with f(4) show "timers u = timers t \<or> (\<exists>y. timers u = timers t @ [y] \<and> guarded u y)"
        by blast
      show "SendMainTimeout (''msg_'' @ show_nat (Suc (msgId t))) d \<in> set (timers u)"
        if "Resolver i c = Resolver (''msg_'' @ show_nat (Suc (msgId t))) d" for d
        using that f(4) by simp
    qed
    with Pair show ?thesis
      by simp
  qed
qed

lemma setupPointerSocket_grows: "grows {} t (setupPointerSocket t)"
  unfolding setupPointerSocket_def by (rule sendMain_grows) simp

lemma command_grows:
  assumes "req_id m = None"
  shows "grows {} t (command m t)"
  using sendMain_grows [OF assms, of t Command]
  unfolding command_eq by (simp split: sum.splits)

lemma subscribeToStatus_grows: "grows {} t (subscribeToStatus t)"
proof -
  define sub :: "handler \<Rightarrow> state \<Rightarrow> state" where "sub = (\<lambda>x s.
           s\<lparr>msgId := msgId s + 1,
              subscriptionIds := insert (''msg_'' @ show_nat (msgId s + 1)) (subscriptionIds s),
              pendingRequests := (pendingRequests s)(''msg_'' @ show_nat (msgId s + 1) \<mapsto> x)\<rparr>)"
  note eq = subscribeToStatus_eq [OF sub_def]
  have sub: "grows {} u (sub x u)" if "\<And>i c. x \<noteq> Resolver i c" for x u
    by (rule grows_new [where x = x]) (use that in \<open>simp_all add: sub_def\<close>)
  have 1: "grows {} t (sub ForegroundAppHandler t)"
    by (rule sub) simp
  show ?thesis
  proof (cases "send_json (mainWs (sub ForegroundAppHandler t))
                  \<lparr>req_id = Some (''msg_'' @ show_nat (msgId t + 1)), req_type = ''subscribe'',
                   req_uri = Some ''ssap://com.webos.applicationManager/getForegroundAppInfo'',
                   req_payload = None\<rparr> (sub ForegroundAppHandler t)")
    case (Inl e)
    with 1 show ?thesis
      unfolding eq by simp
  next
    case (Inr s4)
    from 1 have 4: "grows {} t s4"
      unfolding grows_send_json [OF Inr] .
    have 5: "grows {} s4 (sub VolumeHandler s4)"
      by (rule sub) simp
    show ?thesis
    proof (cases "send_json (mainWs (sub VolumeHandler s4))
                       \<lparr>req_id = Some (''msg_'' @ show_nat (msgId s4 + 1)), req_type = ''subscribe'',
                        req_uri = Some ''ssap://audio/getVolume'', req_payload = None\<rparr>
                       (sub VolumeHandler s4)")
      case (Inl e)
      with Inr grows_then [OF 4 5] show ?thesis
        unfolding eq by simp
    next
      case s8: (Inr s8)
      from grows_then [OF 4 5] have "grows {} t s8"
        unfolding grows_send_json [OF s8] .
      with Inr s8 show ?thesis
        unfolding eq by simp
    qed
  qed
qed

lemma register_grows: "grows {} t (register h t)"
proof -
  let ?i = "''msg_'' @ show_nat (Suc (msgId t))"
  let ?s3 = "t\<lparr>msgId := Suc (msgId t), registrationRequestId := Some ?i,
                pendingRequests := (pendingRequests t)(?i \<mapsto> RegisterHandler h)\<rparr>"
  let ?m = "\<lparr>req_id = Some ?i, req_type = ''register'', req_uri = None,
             req_payload = Some (handshake_payload t)\<rparr>"
  have eq: "register h t =
          (case send_json (mainWs ?s3) ?m ?s3 of
             Inl e \<Rightarrow> fail h e ?s3
           | Inr s4 \<Rightarrow> setTimeout (RegisterTimeout ?i h) s4)"
    by (simp add: register_def nextId_def Let_def split: sum.splits)
  have 3: "grows {} t ?s3"
    by (rule grows_new [where x = "RegisterHandler h"]) simp_all
  show ?thesis
  proof (cases "send_json (mainWs ?s3) ?m ?s3")
    case (Inl e)
    with 3 show ?thesis
      unfolding eq by simp
  next
    case (Inr s4)
    from send_json_pending [OF Inr]
    have p: "pendingRequests s4 = pendingRequests ?s3" "msgId s4 = msgId ?s3"
      by simp_all
    have t4: "timers s4 = timers t"
      using Inr by (auto simp add: send_json_def split: option.splits if_splits)
    have "grows {} t (setTimeout (RegisterTimeout ?i h) s4)"
    proof (rule grows_new [where x = "RegisterHandler h"])
      show "msgId (setTimeout (RegisterTimeout ?i h) s4) = Suc (msgId t)"
        using p by simp
      show "pendingRequests (setTimeout (RegisterTimeout ?i h) s4) =
              (pendingRequests t)(?i \<mapsto> RegisterHandler h)"
        using p by simp
      have "old_id s4 ?i"
        by (rule old_id_fresh) (simp add: p)
      then have "guarded (setTimeout (RegisterTimeout ?i h) s4) (RegisterTimeout ?i h)"
        by (simp add: p old_id_def)
      moreover have "timers (setTimeout (RegisterTimeout ?i h) s4) = timers t @ [RegisterTimeout ?i h]"
        by (simp add: setTimeout_def t4)
      ultimately show "timers (setTimeout (RegisterTimeout ?i h) s4) = timers t
            \<or> (\<exists>y. timers (setTimeout (RegisterTimeout ?i h) s4) = timers t @ [y]
                   \<and> guarded (setTimeout (RegisterTimeout ?i h) s4) y)"
        by blast
    qed simp
    with Inr show ?thesis
      unfolding eq by simp
  qed
qed

lemma onopen_grows: "grows {} t (onopen h t)"
proof -
  have "grows {} t (setStatus pairing (clearTimeout (ConnectTimeout h) t))"
    by simp
  from grows_then [OF this register_grows] show ?thesis
    unfolding onopen_def .
qed

lemma register_handler_grows: "grows {} t (register_handler h r t)"
proof -
  let ?s1 = "case returnedClientKey r of Some k \<Rightarrow> t\<lparr>clientKey := Some k\<rparr> | None \<Rightarrow> t"
  let ?s3 = "setStatus ready (saveConfig ?s1)"
  have "grows {} t ?s1"
    by (simp split: option.splits)
  then have "grows {} t ?s3"
    by simp
  from grows_then [OF grows_then [OF this setupPointerSocket_grows] subscribeToStatus_grows]
  have "grows {} t (succeed h (subscribeToStatus (setupPointerSocket ?s3)))"
    by simp
  then show ?thesis
    by (simp add: register_handler_def Let_def)
qed

lemma invoke_grows: "grows {} t (invoke x r t)"
  using register_handler_grows [of t]
  by (cases x) (simp_all add: invoke_def Let_def split: caller.splits)

lemma grows_delete: "grows {i} t (t\<lparr>pendingRequests := (pendingRequests t)(i := None)\<rparr>)"
  by (auto simp add: grows_def)

lemma handleMainMessage_grows:
  "grows (case d of Some resp \<Rightarrow> {i. resp_id resp = Some i} | None \<Rightarrow> {}) t (handleMainMessage d t)"
proof (cases d)
  case None
  then show ?thesis
    by (simp add: handleMainMessage_def)
next
  case (Some resp)
  show ?thesis
  proof (cases "lookup_handler t resp")
    case None
    then show ?thesis
      by (simp add: handleMainMessage_def Some)
  next
    case x: (Some x)
    then obtain i where i: "resp_id resp = Some i"
      by (cases "resp_id resp") (simp_all add: lookup_handler_def)
    define s1 where "s1 = (
         if i \<notin> subscriptionIds t \<and> registrationRequestId t \<noteq> Some i
         then t\<lparr>pendingRequests := (pendingRequests t)(i := None)\<rparr>
         else if registrationRequestId t = Some i \<and> registrationDone resp
         then t\<lparr>pendingRequests := (pendingRequests t)(i := None), registrationRequestId := None\<rparr>
         else t)"
    have eq: "handleMainMessage (Some resp) t = invoke x resp s1"
      by (simp add: handleMainMessage_def x s1_def Let_def i)
    have "grows {i} t s1"
      using grows_delete [of i t] by (simp add: s1_def)
    from grows_then [OF this invoke_grows, of x resp] show ?thesis
      unfolding Some eq by (simp add: i)
  qed
qed

lemma register_timeout_grows: "grows {i} t (register_timeout i h t)"
  using grows_delete [of i t] by (simp add: register_timeout_def)

lemma sendMain_timeout_grows: "grows {i} t (sendMain_timeout i t)"
  using grows_delete [of i t] by (simp add: sendMain_timeout_def)

text \<open>The callbacks of the events, a timer apart, and the callback of a timer once the
  timer is taken off the queue.\<close>

lemma step_grows:
  assumes "\<And>t. e \<noteq> Timer t"
  shows "grows (deletes e) s (step e s)"
proof (cases e)
  case (CallConnect ip)
  then show ?thesis
    by (simp add: step_def connect_grows)
next
  case CallDisconnect
  then show ?thesis
    by (simp add: step_def disconnect_grows)
next
  case (CallSendButton k)
  then show ?thesis
    by (simp add: step_def sendButton_def command_grows)
next
  case (CallSendInput k)
  then show ?thesis
    by (simp add: step_def sendInput_def command_grows)
next
  case (WsOpen h)
  have "grows {} s (set_readyState h OPEN s)"
    by simp
  from this grows_then [OF this onopen_grows, of h] show ?thesis
    by (simp add: step_def WsOpen Let_def)
next
  case (WsMessage h d)
  show ?thesis
  proof (cases d)
    case None
    with handleMainMessage_grows [of None s] show ?thesis
      by (simp add: step_def WsMessage)
  next
    case (Some resp)
    with handleMainMessage_grows [of "Some resp" s] show ?thesis
      by (simp add: step_def WsMessage grows_mono)
  qed
next
  case (WsClose h)
  then show ?thesis
    by (simp add: step_def Let_def)
next
  case (Timer t)
  with assms [of t] show ?thesis
    by simp
qed (simp_all add: step_def)

lemma timer_grows: "grows (deletes (Timer t)) s (run_timer t s)"
  by (cases t) (simp_all add: run_timer_def register_timeout_grows sendMain_timeout_grows)

lemma step_Timer:
  "step (Timer t) s =
     (if t \<in> set (timers s) then run_timer t (s\<lparr>timers := remove1 t (timers s)\<rparr>) else s)"
  by (simp add: step_def)

subsection \<open>Every timer guards its entry\<close>

lemma guards_ok_initial: "guards_ok (initial cfg w ctor chk hp)"
  by (simp add: guards_ok_def initial_def)

lemma guards_ok_grows:
  assumes "guards_ok s" "grows D s s'"
  shows "guards_ok s'"
  unfolding guards_ok_def
proof (intro conjI allI impI ballI)
  fix t assume "t \<in> set (timers s')"
  from growsD(3) [OF assms(2) this] assms(1) guarded_grows [OF _ assms(2)]
  show "guarded s' t"
    unfolding guards_ok_def by blast
next
  fix i c assume "pendingRequests s' i = Some (Resolver i c)"
  from growsD(5) [OF assms(2) this] assms(1) growsD(4) [OF assms(2)]
  show "SendMainTimeout i c \<in> set (timers s')"
    unfolding guards_ok_def by blast
qed

lemma guards_ok_timer:
  assumes ok: "guards_ok s" and t: "t \<in> set (timers s)"
  shows "guards_ok (run_timer t (s\<lparr>timers := remove1 t (timers s)\<rparr>))"
proof -
  let ?s0 = "s\<lparr>timers := remove1 t (timers s)\<rparr>"
  have g0: "\<forall>x \<in> set (timers ?s0). guarded ?s0 x"
    using ok unfolding guards_ok_def by (auto dest: notin_set_remove1)
  show ?thesis
  proof (cases "\<exists>i c. t = SendMainTimeout i c")
    case False
    have "SendMainTimeout i c \<in> set (timers ?s0)" if "pendingRequests ?s0 i = Some (Resolver i c)" for i c
    proof -
      from that ok have "SendMainTimeout i c \<in> set (timers s)"
        unfolding guards_ok_def by simp
      moreover from False have "SendMainTimeout i c \<noteq> t"
        by metis
      ultimately show ?thesis
        by (simp add: in_set_remove1)
    qed
    with g0 have "guards_ok ?s0"
      unfolding guards_ok_def by blast
    then show ?thesis
      using timer_grows by (rule guards_ok_grows)
  next
    case True
    then obtain i c where tt: "t = SendMainTimeout i c"
      by blast
    let ?s' = "sendMain_timeout i ?s0"
    have g: "grows {i} ?s0 ?s'"
      by (rule sendMain_timeout_grows)
    have tm: "timers ?s' = timers ?s0" and p: "pendingRequests ?s' = (pendingRequests s)(i := None)"
      by (auto simp add: sendMain_timeout_def)
    have "guards_ok ?s'"
      unfolding guards_ok_def
    proof (intro conjI allI impI ballI)
      fix x assume "x \<in> set (timers ?s')"
      with g0 guarded_grows [OF _ g] show "guarded ?s' x"
        unfolding tm by blast
    next
      fix k d assume a: "pendingRequests ?s' k = Some (Resolver k d)"
      then have k: "k \<noteq> i" "pendingRequests s k = Some (Resolver k d)"
        unfolding p by (auto split: if_splits)
      with ok have "SendMainTimeout k d \<in> set (timers s)"
        unfolding guards_ok_def by blast
      with k(1) show "SendMainTimeout k d \<in> set (timers ?s')"
        unfolding tm tt by (simp add: in_set_remove1)
    qed
    then show ?thesis
      unfolding tt by (simp add: run_timer_def)
  qed
qed

lemma guards_ok_step:
  assumes "guards_ok s"
  shows "guards_ok (step e s)"
proof (cases "\<exists>t. e = Timer t")
  case False
  then have "grows (deletes e) s (step e s)"
    by (intro step_grows) blast
  with assms show ?thesis
    by (rule guards_ok_grows)
next
  case True
  then obtain t where "e = Timer t"
    by blast
  with assms guards_ok_timer [OF assms, of t] show ?thesis
    by (simp add: step_Timer)
qed

lemma guards_ok_run: "guards_ok s \<Longrightarrow> guards_ok (run evs s)"
  by (induction evs arbitrary: s) (simp_all add: guards_ok_step)

lemma reachable_guards_ok: "reachable s \<Longrightarrow> guards_ok s"
  by (auto simp add: reachable_def intro: guards_ok_run guards_ok_initial)

lemma run_append: "run (xs @ ys) s = run ys (run xs s)"
  by (induction xs arbitrary: s) simp_all

lemma reachable_step: "reachable s \<Longrightarrow> reachable (step e s)"
proof -
  assume "reachable s"
  then obtain evs cfg w ctor chk hp where "s = run evs (initial cfg w ctor chk hp)"
    unfolding reachable_def by blast
  then have "step e s = run (evs @ [e]) (initial cfg w ctor chk hp)"
    by (simp add: run_append)
  then show ?thesis
    unfolding reachable_def by blast
qed

lemma reachable_run: "reachable s \<Longrightarrow> reachable (run es s)"
  by (induction es arbitrary: s) (simp_all add: reachable_step)

subsection \<open>A request that goes on waiting\<close>

lemma waits_step:
  assumes r: "reachable s" and p: "pendingRequests s i = Some (Resolver i c)"
    and w: "waits i s e"
  shows "pendingRequests (step e s) i = Some (Resolver i c)"
proof -
  have o: "old_id s i"
    using reachable_ok [OF r] p unfolding correlator_ok_def by blast
  show ?thesis
  proof (cases "\<exists>t. e = Timer t")
    case False
    show ?thesis
    proof (cases "\<exists>ip. e = CallConnect ip")
      case True
      then obtain ip where e: "e = CallConnect ip"
        by blast
      with w have "grows {} s (connect ip s)"
        by (simp add: connect_grows_idle)
      from growsD(2) [OF this o] p show ?thesis
        by (simp add: e step_def)
    next
      case nc: False
      from False have g: "grows (deletes e) s (step e s)"
        by (intro step_grows) blast
      have "i \<notin> deletes e"
        using w False nc by (cases e rule: deletes.cases) simp_all
      with growsD(2) [OF g o] p show ?thesis
        by simp
    qed
  next
    case True
    then obtain t where e: "e = Timer t"
      by blast
    show ?thesis
    proof (cases "t \<in> set (timers s)")
      case False
      with p show ?thesis
        by (simp add: e step_Timer)
    next
      case True
      let ?q = "s\<lparr>timers := remove1 t (timers s)\<rparr>"
      from True reachable_guards_ok [OF r] have gt: "guarded s t"
        unfolding guards_ok_def by blast
      have "i \<notin> deletes (Timer t)"
        using w gt p unfolding e by (cases t) auto
      moreover have "old_id ?q i"
        using o by (simp add: old_id_def)
      ultimately show ?thesis
        using growsD(2) [OF timer_grows [of t ?q], of i] p True by (simp add: e step_Timer)
    qed
  qed
qed

lemma waits_run:
  assumes "reachable s" "pendingRequests s i = Some (Resolver i c)" "waiting i es s"
  shows "pendingRequests (run es s) i = Some (Resolver i c)"
  using assms
proof (induction es arbitrary: s)
  case Nil
  then show ?case
    by simp
next
  case (Cons e es)
  from Cons.prems have "reachable (step e s)" "pendingRequests (step e s) i = Some (Resolver i c)"
    by (simp_all add: reachable_step waits_step)
  with Cons.IH [of "step e s"] Cons.prems(3) show ?case
    by simp
qed

text \<open>An identifier that was handed out and has no entry never gets one again.\<close>

lemma gone_step:
  assumes o: "old_id s i" and p: "pendingRequests s i = None"
  shows "old_id (step e s) i \<and> pendingRequests (step e s) i = None"
proof (cases "\<exists>t. e = Timer t")
  case False
  then have g: "grows (deletes e) s (step e s)"
    by (intro step_grows) blast
  from growsD(2) [OF g o] p old_id_mono [OF o growsD(1) [OF g]] show ?thesis
    by auto
next
  case True
  then obtain t where e: "e = Timer t"
    by blast
  let ?s0 = "s\<lparr>timers := remove1 t (timers s)\<rparr>"
  have o0: "old_id ?s0 i"
    using o by (simp add: old_id_def)
  note g = timer_grows [of t ?s0]
  from growsD(2) [OF g o0] p old_id_mono [OF o0 growsD(1) [OF g]] o show ?thesis
    by (auto simp add: e step_Timer)
qed

lemma gone_run:
  "old_id s i \<Longrightarrow> pendingRequests s i = None \<Longrightarrow> pendingRequests (run es s) i = None"
proof (induction es arbitrary: s)
  case Nil
  then show ?case
    by simp
next
  case (Cons e es)
  from gone_step [OF Cons.prems, of e] Cons.IH [of "step e s"] show ?case
    by simp
qed

lemma pending_unsettled:
  assumes "reachable s" "pendingRequests s i = Some (Resolver j c)"
  shows "j = i" and "filter (settles i) (effects s) = []"
proof -
  from reachable_ok [OF assms(1)] assms(2)
  have "j = i \<and> filter (settles i) (sett s) = []"
    unfolding correlator_ok_def by blast
  then show "j = i" and "filter (settles i) (effects s) = []"
    unfolding sett_def settles_filter by simp_all
qed

text \<open>The request for the pointer socket is still pending, with its timer, when the
  handler of \<open>register\<close> returns.\<close>

lemma pointer_request_pending:
  assumes ok: "resp_type resp = ''registered''
             \<or> (resp_type resp = ''response'' \<and> returnedClientKey resp \<noteq> None)"
    and m: "mainWs s = Some w" "is_open s w"
  shows "pendingRequests (register_handler h resp s) (''msg_'' @ show_nat (Suc (msgId s))) =
           Some (Resolver (''msg_'' @ show_nat (Suc (msgId s))) SetupPointerSocket)"
    and "SendMainTimeout (''msg_'' @ show_nat (Suc (msgId s))) SetupPointerSocket
           \<in> set (timers (register_handler h resp s))"
proof -
  let ?i = "''msg_'' @ show_nat (Suc (msgId s))"
  let ?s1 = "case returnedClientKey resp of Some k \<Rightarrow> s\<lparr>clientKey := Some k\<rparr> | None \<Rightarrow> s"
  let ?s3 = "setStatus ready (saveConfig ?s1)"
  let ?m = "\<lparr>req_id = None, req_type = ''request'',
             req_uri = Some ''ssap://com.webos.service.networkinput/getPointerInputSocket'',
             req_payload = None\<rparr>"
  let ?s4 = "snd (sendMain ?m SetupPointerSocket ?s3)"
  have 3: "mainWs ?s3 = Some w" "is_open ?s3 w" "msgId ?s3 = msgId s"
    using m by (simp_all add: is_open_def split: option.splits)
  then have "fst (sendMain ?m SetupPointerSocket ?s3) = Inr ?i"
    by (simp add: sendMain_def nextId_def Let_def)
  then have "sendMain ?m SetupPointerSocket ?s3 = (Inr ?i, ?s4)"
    by (simp add: prod_eq_iff)
  note f = sendMain_fresh [OF _ this]
  have o: "old_id ?s4 ?i"
    using old_id_fresh [of ?s4 ?s3] f(2) 3(3) by simp
  have "pendingRequests (subscribeToStatus ?s4) ?i = Some (Resolver ?i SetupPointerSocket)"
    using pending_old_subscribeToStatus [OF o] f(3) by simp
  moreover have "SendMainTimeout ?i SetupPointerSocket \<in> set (timers (subscribeToStatus ?s4))"
    using f(4) by simp
  moreover have "register_handler h resp s = succeed h (subscribeToStatus ?s4)"
    using ok by (simp add: register_handler_def Let_def setupPointerSocket_def)
  ultimately show "pendingRequests (register_handler h resp s) ?i =
           Some (Resolver ?i SetupPointerSocket)"
    and "SendMainTimeout ?i SetupPointerSocket \<in> set (timers (register_handler h resp s))"
    by simp_all
qed

lemma timer_fires:
  assumes "SendMainTimeout i c \<in> set (timers s)" "pendingRequests s i \<noteq> None"
  shows "effects (step (Timer (SendMainTimeout i c)) s) =
           effects s @ [Rejected i (''Request '' @ i @ '' timed out'')]"
    and "pendingRequests (step (Timer (SendMainTimeout i c)) s) = (pendingRequests s)(i := None)"
    and "msgId (step (Timer (SendMainTimeout i c)) s) = msgId s"
  using assms by (simp_all add: step_def run_timer_def sendMain_timeout_def)

lemma no_entry_unsolicited:
  assumes "pendingRequests s i = None" "resp_id resp = Some i"
  shows "handleMainMessage (Some resp) s = unsolicited resp s"
    and "sett (handleMainMessage (Some resp) s) = sett s"
  using assms by (simp_all add: handleMainMessage_def lookup_handler_def)

lemma disconnect_clears:
  "pendingRequests (disconnect s) = Map.empty"
  "timers (disconnect s) = timers s"
  "sett (disconnect s) = sett s"
  by (simp_all add: disconnect_def Let_def)

lemma timer_without_entry:
  assumes "pendingRequests s i = None"
  shows "effects (step (Timer (SendMainTimeout i c)) s) = effects s"
  using assms by (simp add: step_def run_timer_def sendMain_timeout_def)

text \<open>
  C2, as the code has it. \<open>sendMain\<close> stores the \<open>resolve\<close> of its promise under a
  fresh identifier and sets the timer of the request; the request that a successful
  handshake sends for the pointer socket is still stored, with its timer, when the
  handler of the handshake returns. In any state the event loop can reach, a stored
  \<open>resolve\<close> sits under the identifier of its request and the promise is not settled.
  As long as no response with that identifier arrives and \<open>disconnect\<close> is not
  called, neither directly nor by a \<open>connect\<close> that finds a main socket, whatever else
  happens, the entry stays and the timer stays scheduled. When the timer then fires,
  the promise is rejected with \<open>Request <id> timed out\<close> and the entry is removed; from
  then on the identifier has no entry, so that a response with it is treated as
  unsolicited and calls no resolver.
  A response for an identifier without an entry never calls one. \<open>disconnect\<close>
  empties the map without settling a promise and leaves the timers scheduled, and a
  timer that finds no entry under its identifier does nothing. Over any run of the
  event loop the promise of a request is settled at most once.
\<close>

theorem sendMain_timeout_rejects_once:
  assumes "reachable s"
  shows
    "(req_id m = None \<and> sendMain m c' s0 = (Inr i0, s1) \<longrightarrow>
        i0 = ''msg_'' @ show_nat (Suc (msgId s0))
        \<and> pendingRequests s1 i0 = Some (Resolver i0 c')
        \<and> SendMainTimeout i0 c' \<in> set (timers s1))
     \<and> ((resp_type r0 = ''registered''
            \<or> (resp_type r0 = ''response'' \<and> returnedClientKey r0 \<noteq> None))
          \<and> mainWs s0 = Some w \<and> is_open s0 w \<longrightarrow>
          pendingRequests (register_handler h r0 s0) (''msg_'' @ show_nat (Suc (msgId s0))) =
            Some (Resolver (''msg_'' @ show_nat (Suc (msgId s0))) SetupPointerSocket)
          \<and> SendMainTimeout (''msg_'' @ show_nat (Suc (msgId s0))) SetupPointerSocket
              \<in> set (timers (register_handler h r0 s0)))
     \<and> (pendingRequests s i = Some (Resolver j c) \<and> waiting i es s \<longrightarrow>
          j = i
          \<and> pendingRequests (run es s) i = Some (Resolver i c)
          \<and> SendMainTimeout i c \<in> set (timers (run es s))
          \<and> filter (settles i) (effects (run es s)) = []
          \<and> effects (step (Timer (SendMainTimeout i c)) (run es s)) =
              effects (run es s) @ [Rejected i (''Request '' @ i @ '' timed out'')]
          \<and> (\<forall>es' resp.
                pendingRequests (run es' (step (Timer (SendMainTimeout i c)) (run es s))) i = None
                \<and> (resp_id resp = Some i \<longrightarrow>
                     handleMainMessage (Some resp)
                       (run es' (step (Timer (SendMainTimeout i c)) (run es s))) =
                     unsolicited resp (run es' (step (Timer (SendMainTimeout i c)) (run es s))))))
     \<and> (pendingRequests s0 i0 = None \<and> resp_id r0 = Some i0 \<longrightarrow>
          handleMainMessage (Some r0) s0 = unsolicited r0 s0
          \<and> sett (handleMainMessage (Some r0) s0) = sett s0)
     \<and> pendingRequests (disconnect s0) = Map.empty
     \<and> timers (disconnect s0) = timers s0
     \<and> sett (disconnect s0) = sett s0
     \<and> (pendingRequests s0 i0 = None \<longrightarrow>
          effects (step (Timer (SendMainTimeout i0 c')) s0) = effects s0)
     \<and> length (filter (settles k) (effects s)) \<le> 1"
proof (intro conjI impI allI)
  assume a: "req_id m = None \<and> sendMain m c' s0 = (Inr i0, s1)"
  then have m: "req_id m = None" and e: "sendMain m c' s0 = (Inr i0, s1)"
    by simp_all
  note f = sendMain_fresh [OF m e]
  show "i0 = ''msg_'' @ show_nat (Suc (msgId s0))"
    by (rule f(1))
  show "pendingRequests s1 i0 = Some (Resolver i0 c')"
    by (simp add: f(3))
  show "SendMainTimeout i0 c' \<in> set (timers s1)"
    by (simp add: f(4))
next
  assume a: "(resp_type r0 = ''registered''
            \<or> (resp_type r0 = ''response'' \<and> returnedClientKey r0 \<noteq> None))
          \<and> mainWs s0 = Some w \<and> is_open s0 w"
  then have ok: "resp_type r0 = ''registered''
            \<or> (resp_type r0 = ''response'' \<and> returnedClientKey r0 \<noteq> None)"
    and m: "mainWs s0 = Some w" "is_open s0 w"
    by blast+
  show "pendingRequests (register_handler h r0 s0) (''msg_'' @ show_nat (Suc (msgId s0))) =
            Some (Resolver (''msg_'' @ show_nat (Suc (msgId s0))) SetupPointerSocket)"
    by (rule pointer_request_pending(1) [OF ok m])
  show "SendMainTimeout (''msg_'' @ show_nat (Suc (msgId s0))) SetupPointerSocket
              \<in> set (timers (register_handler h r0 s0))"
    by (rule pointer_request_pending(2) [OF ok m])
next
  assume a: "pendingRequests s i = Some (Resolver j c) \<and> waiting i es s"
  then have p0: "pendingRequests s i = Some (Resolver j c)" and w: "waiting i es s"
    by simp_all
  show ji: "j = i"
    by (rule pending_unsettled(1) [OF assms p0])
  let ?t = "run es s"
  have rt: "reachable ?t"
    by (rule reachable_run [OF assms])
  show p: "pendingRequests ?t i = Some (Resolver i c)"
    using waits_run [OF assms _ w] p0 ji by simp
  show tm: "SendMainTimeout i c \<in> set (timers ?t)"
    using reachable_guards_ok [OF rt] p unfolding guards_ok_def by blast
  show "filter (settles i) (effects ?t) = []"
    by (rule pending_unsettled(2) [OF rt p])
  let ?u = "step (Timer (SendMainTimeout i c)) ?t"
  have ne: "pendingRequests ?t i \<noteq> None"
    using p by simp
  show "effects ?u = effects ?t @ [Rejected i (''Request '' @ i @ '' timed out'')]"
    by (rule timer_fires(1) [OF tm ne])
  have "old_id ?t i"
    using reachable_ok [OF rt] p unfolding correlator_ok_def by blast
  then have ou: "old_id ?u i"
    using timer_fires(3) [OF tm ne] by (simp add: old_id_def)
  have pu: "pendingRequests ?u i = None"
    using timer_fires(2) [OF tm ne] by simp
  fix es' resp
  show g: "pendingRequests (run es' ?u) i = None"
    by (rule gone_run [OF ou pu])
  show "handleMainMessage (Some resp) (run es' ?u) = unsolicited resp (run es' ?u)"
    if "resp_id resp = Some i"
    by (rule no_entry_unsolicited(1) [OF g that])
next
  assume a: "pendingRequests s0 i0 = None \<and> resp_id r0 = Some i0"
  then show "handleMainMessage (Some r0) s0 = unsolicited r0 s0"
    and "sett (handleMainMessage (Some r0) s0) = sett s0"
    using no_entry_unsolicited by blast+
next
  show "pendingRequests (disconnect s0) = Map.empty" "timers (disconnect s0) = timers s0"
    "sett (disconnect s0) = sett s0"
    by (rule disconnect_clears)+
next
  assume "pendingRequests s0 i0 = None"
  then show "effects (step (Timer (SendMainTimeout i0 c')) s0) = effects s0"
    by (rule timer_without_entry)
next
  show "length (filter (settles k) (effects s)) \<le> 1"
    by (rule settled_once [OF assms])
qed

theorem sendMain_timeout_rejects_once_witness:
  "reachable (run (session @ [CallSendButton ''HOME'']) (fresh None))
   \<and> fst (sendMain \<lparr>req_id = None, req_type = ''request'',
                     req_uri = Some ''ssap://com.webos.service.networkinput/sendButton'',
                     req_payload = Some [(''name'', JStr ''HOME'')]\<rparr> Command
             (run session (fresh None))) = Inr ''msg_5''
   \<and> SendMainTimeout ''msg_5'' Command
       \<in> set (timers (snd (sendMain \<lparr>req_id = None, req_type = ''request'',
                     req_uri = Some ''ssap://com.webos.service.networkinput/sendButton'',
                     req_payload = Some [(''name'', JStr ''HOME'')]\<rparr> Command
             (run session (fresh None)))))
   \<and> pendingRequests (run (session @ [CallSendButton ''HOME'']) (fresh None)) ''msg_5''
       = Some (Resolver ''msg_5'' Command)
   \<and> pendingRequests
        (run [CallClick, WsMessage 0 (Some (msg_response ''msg_3'' [(''appId'', JStr ''youtube'')])),
              CallSendButton ''BACK'', Timer ClickRelease, WsClose 1]
           (run (session @ [CallSendButton ''HOME'']) (fresh None))) ''msg_5''
       = Some (Resolver ''msg_5'' Command)
   \<and> SendMainTimeout ''msg_5'' Command
       \<in> set (timers
            (run [CallClick, WsMessage 0 (Some (msg_response ''msg_3'' [(''appId'', JStr ''youtube'')])),
                  CallSendButton ''BACK'', Timer ClickRelease, WsClose 1]
               (run (session @ [CallSendButton ''HOME'']) (fresh None))))
   \<and> effects (step (Timer (SendMainTimeout ''msg_5'' Command))
        (run [CallClick, WsMessage 0 (Some (msg_response ''msg_3'' [(''appId'', JStr ''youtube'')])),
              CallSendButton ''BACK'', Timer ClickRelease, WsClose 1]
           (run (session @ [CallSendButton ''HOME'']) (fresh None)))) =
       effects
        (run [CallClick, WsMessage 0 (Some (msg_response ''msg_3'' [(''appId'', JStr ''youtube'')])),
              CallSendButton ''BACK'', Timer ClickRelease, WsClose 1]
           (run (session @ [CallSendButton ''HOME'']) (fresh None))) @
         [Rejected ''msg_5'' ''Request msg_5 timed out'']
   \<and> pendingRequests
        (run [WsMessage 0 (Some (msg_response ''msg_5'' []))]
          (step (Timer (SendMainTimeout ''msg_5'' Command))
            (run [CallClick, WsMessage 0 (Some (msg_response ''msg_3'' [(''appId'', JStr ''youtube'')])),
                  CallSendButton ''BACK'', Timer ClickRelease, WsClose 1]
               (run (session @ [CallSendButton ''HOME'']) (fresh None))))) ''msg_5'' = None
   \<and> length (filter (settles ''msg_5'')
        (effects (run (session @ [CallSendButton ''HOME'']) (fresh None)))) \<le> 1"
proof -
  let ?a = "run session (fresh None)"
  let ?m = "\<lparr>req_id = None, req_type = ''request'',
             req_uri = Some ''ssap://com.webos.service.networkinput/sendButton'',
             req_payload = Some [(''name'', JStr ''HOME'')]\<rparr>"
  let ?s = "run (session @ [CallSendButton ''HOME'']) (fresh None)"
  let ?es = "[CallClick, WsMessage 0 (Some (msg_response ''msg_3'' [(''appId'', JStr ''youtube'')])),
              CallSendButton ''BACK'', Timer ClickRelease, WsClose 1]"
  let ?u = "step (Timer (SendMainTimeout ''msg_5'' Command)) (run ?es ?s)"
  have r: "reachable ?s"
    unfolding reachable_def fresh_def by blast
  have f: "fst (sendMain ?m Command ?a) = Inr ''msg_5''"
    by code_simp
  then have e: "sendMain ?m Command ?a = (Inr ''msg_5'', snd (sendMain ?m Command ?a))"
    by (simp add: prod_eq_iff del: run.simps)
  have m: "req_id ?m = None"
    by simp
  have p: "pendingRequests ?s ''msg_5'' = Some (Resolver ''msg_5'' Command)"
    by code_simp
  have w: "waiting ''msg_5'' ?es ?s"
    by code_simp
  note T = sendMain_timeout_rejects_once [OF r, of ?m Command ?a "''msg_5''"
      "snd (sendMain ?m Command ?a)" undefined undefined undefined "''msg_5''" "''msg_5''"
      Command ?es "''msg_5''"]
  note A = T [THEN conjunct1, THEN mp, OF conjI, OF m e]
  note B = T [THEN conjunct2, THEN conjunct2, THEN conjunct1, THEN mp, OF conjI, OF p w]
  note C = T [THEN conjunct2, THEN conjunct2, THEN conjunct2, THEN conjunct2, THEN conjunct2,
              THEN conjunct2, THEN conjunct2, THEN conjunct2]
  have 1: "SendMainTimeout ''msg_5'' Command \<in> set (timers (snd (sendMain ?m Command ?a)))"
    by (rule A [THEN conjunct2, THEN conjunct2])
  have 2: "pendingRequests (run ?es ?s) ''msg_5'' = Some (Resolver ''msg_5'' Command)"
    by (rule B [THEN conjunct2, THEN conjunct1])
  have 3: "SendMainTimeout ''msg_5'' Command \<in> set (timers (run ?es ?s))"
    by (rule B [THEN conjunct2, THEN conjunct2, THEN conjunct1])
  have 4: "effects ?u = effects (run ?es ?s) @ [Rejected ''msg_5'' ''Request msg_5 timed out'']"
    using B [THEN conjunct2, THEN conjunct2, THEN conjunct2, THEN conjunct2, THEN conjunct1]
    by (simp del: run.simps)
  have 5: "pendingRequests (run [WsMessage 0 (Some (msg_response ''msg_5'' []))] ?u) ''msg_5'' = None"
    by (rule B [THEN conjunct2, THEN conjunct2, THEN conjunct2, THEN conjunct2, THEN conjunct2,
                THEN spec, THEN spec, THEN conjunct1])
  have 6: "length (filter (settles ''msg_5'') (effects ?s)) \<le> 1"
    by (rule C)
  from r f 1 p 2 3 4 5 6 show ?thesis
    by blast
qed

text \<open>
  The claim that every unanswered request is rejected when its time is up fails when
  the map is cleared in between: a button is sent in the sample session, \<open>disconnect\<close>
  is called, and then the timer of the request fires. It finds no entry and does
  nothing; the promise of the request is never settled.
\<close>

theorem timeout_after_disconnect_is_silent:
  "SentJson 0 \<lparr>req_id = Some ''msg_5'', req_type = ''request'',
                req_uri = Some ''ssap://com.webos.service.networkinput/sendButton'',
                req_payload = Some [(''name'', JStr ''HOME'')]\<rparr>
     \<in> set (effects (run (session @ [CallSendButton ''HOME'']) (fresh None)))
   \<and> SendMainTimeout ''msg_5'' Command
       \<in> set (timers (run (session @ [CallSendButton ''HOME'', CallDisconnect]) (fresh None)))
   \<and> filter (settles ''msg_5'')
        (effects (run (session @ [CallSendButton ''HOME'', CallDisconnect,
                                  Timer (SendMainTimeout ''msg_5'' Command)]) (fresh None))) = []
   \<and> SendMainTimeout ''msg_5'' Command
       \<notin> set (timers (run (session @ [CallSendButton ''HOME'', CallDisconnect,
                                        Timer (SendMainTimeout ''msg_5'' Command)]) (fresh None)))"
  by code_simp

subsection \<open>The attempts of connect\<close>

lemma rejs_update [simp]:
  "rejs (s\<lparr>mainWs := v0\<rparr>) = rejs s"
  "rejs (s\<lparr>pointerWs := v1\<rparr>) = rejs s"
  "rejs (s\<lparr>status := v2\<rparr>) = rejs s"
  "rejs (s\<lparr>tvIp := v3\<rparr>) = rejs s"
  "rejs (s\<lparr>clientKey := v4\<rparr>) = rejs s"
  "rejs (s\<lparr>msgId := v5\<rparr>) = rejs s"
  "rejs (s\<lparr>pendingRequests := v6\<rparr>) = rejs s"
  "rejs (s\<lparr>subscriptionIds := v7\<rparr>) = rejs s"
  "rejs (s\<lparr>registrationRequestId := v8\<rparr>) = rejs s"
  "rejs (s\<lparr>currentApp := v9\<rparr>) = rejs s"
  "rejs (s\<lparr>volume := v10\<rparr>) = rejs s"
  "rejs (s\<lparr>muted := v11\<rparr>) = rejs s"
  "rejs (s\<lparr>onStatusChange := v12\<rparr>) = rejs s"
  "rejs (s\<lparr>sockets := v13\<rparr>) = rejs s"
  "rejs (s\<lparr>timers := v14\<rparr>) = rejs s"
  "rejs (s\<lparr>store := v15\<rparr>) = rejs s"
  by (simp_all add: rejs_def)

lemma rejs_emit: "rejs (emit e s) = rejs s @ (if is_rej e then [e] else [])"
  by (simp add: rejs_def)

lemma rejs_keeps [simp]:
  "rejs (close_opt w s) = rejs s"
  "rejs (ws_close h s) = rejs s"
  "rejs (set_readyState h rs s) = rejs s"
  "rejs (clearTimeout t s) = rejs s"
  "rejs (setTimeout t s) = rejs s"
  "rejs (setStatusCallback s) = rejs s"
  "rejs (saveConfig s) = rejs s"
  "rejs (connect_catch s) = rejs s"
  "rejs (setupPointerSocket_resume r s) = rejs s"
  by (simp_all add: rejs_def)

lemma rejs_notify [simp]: "rejs (notify s) = rejs s"
  by (simp add: notify_def rejs_emit)

lemma rejs_setStatus [simp]: "rejs (setStatus x s) = rejs s"
  by (simp add: setStatus_def)

lemma rejs_connectWebSocket [simp]: "rejs (connectWebSocket u us errs s) = rejs s"
  by (simp add: connectWebSocket_def Let_def)

lemma rejs_succeed [simp]: "rejs (succeed h s) = rejs s"
  by (simp add: succeed_def rejs_emit)

lemma rejs_disconnect [simp]: "rejs (disconnect s) = rejs s"
  by (simp add: disconnect_def Let_def)

lemma rejs_sendMain [simp]: "rejs (snd (sendMain m c s)) = rejs s"
  by (simp add: sendMain_def nextId_def Let_def rejs_emit split: option.splits prod.splits)

lemma rejs_sendMain_timeout [simp]: "rejs (sendMain_timeout i s) = rejs s"
  by (simp add: sendMain_timeout_def rejs_emit)

lemma rejs_setupPointerSocket [simp]: "rejs (setupPointerSocket s) = rejs s"
  by (simp add: setupPointerSocket_def)

lemma rejs_subscribeToStatus [simp]: "rejs (subscribeToStatus s) = rejs s"
  by (simp add: subscribeToStatus_def nextId_def send_json_def Let_def rejs_emit
        split: option.splits)

lemma rejs_handlers [simp]:
  "rejs (foregroundApp_handler r s) = rejs s"
  "rejs (volume_handler r s) = rejs s"
  "rejs (unsolicited r s) = rejs s"
  by (simp_all add: foregroundApp_handler_def volume_handler_def unsolicited_def Let_def
        split: option.splits)

lemma rejs_pointer [simp]:
  "rejs (moveMouse dx dy s) = rejs s"
  "rejs (click s) = rejs s"
  "rejs (click_release s) = rejs s"
  by (simp_all add: moveMouse_def click_def click_release_def send_bytes_def rejs_emit
        split: option.splits)

lemma rejs_command [simp]: "rejs (command m s) = rejs s"
  unfolding command_eq by (simp add: rejs_emit split: sum.splits)

subsection \<open>The outcome of the handshake\<close>

lemma store_saveConfig_written:
  assumes "tvIp s = Some ip" "ip \<noteq> []" "clientKey s = Some k" "k \<noteq> []" "fsWritable s"
  shows "store (saveConfig s) = Some \<lparr>cfg_tvIp = ip, cfg_clientKey = k\<rparr>"
  using assms by (simp add: saveConfig_def)

lemma clientKey_register_handler:
  "clientKey (register_handler h resp s) =
     (if resp_type resp = ''registered''
         \<or> (resp_type resp = ''response'' \<and> returnedClientKey resp \<noteq> None)
      then (case returnedClientKey resp of Some k \<Rightarrow> Some k | None \<Rightarrow> clientKey s)
      else clientKey s)"
  by (auto simp add: register_handler_def Let_def split: option.splits)

lemma register_handler_store:
  assumes ok: "resp_type resp = ''registered''
             \<or> (resp_type resp = ''response'' \<and> returnedClientKey resp \<noteq> None)"
    and s: "tvIp s = Some ip" "ip \<noteq> []" "fsWritable s"
    and k: "clientKey (register_handler h resp s) = Some k" "k \<noteq> []"
  shows "store (register_handler h resp s) = Some \<lparr>cfg_tvIp = ip, cfg_clientKey = k\<rparr>"
proof -
  let ?s1 = "case returnedClientKey resp of Some k \<Rightarrow> s\<lparr>clientKey := Some k\<rparr> | None \<Rightarrow> s"
  have "clientKey ?s1 = Some k"
    using k(1) ok unfolding clientKey_register_handler by (auto split: option.splits)
  moreover have "tvIp ?s1 = Some ip" "fsWritable ?s1"
    using s by (simp_all split: option.splits)
  ultimately have "store (saveConfig ?s1) = Some \<lparr>cfg_tvIp = ip, cfg_clientKey = k\<rparr>"
    using s(2) k(2) by (intro store_saveConfig_written)
  with ok show ?thesis
    unfolding store_register_handler by simp
qed

lemma fail_next_candidate:
  assumes "h < length (sockets s)" "\<not> ws_settled (sockets s ! h)"
    "ws_rest (sockets s ! h) = u # us" "wsCtorError s u = None"
  shows "status (fail h m s) = connecting"
    and "mainWs (fail h m s) = Some (length (sockets s))"
    and "length (sockets (fail h m s)) = Suc (length (sockets s))"
    and "sockets (fail h m s) ! length (sockets s) =
           \<lparr>ws_url = u, ws_readyState = CONNECTING, ws_pointer = False, ws_settled = False,
            ws_rest = us, ws_errors = ws_errors (sockets s ! h) @ [ws_url (sockets s ! h) @ '' -> '' @ m]\<rparr>"
    and "rejs (fail h m s) = rejs s"
    and "ConnectTimeout (length (sockets s)) \<in> set (timers (fail h m s))"
  using assms
  by (simp_all add: fail_def Let_def connectWebSocket_def setTimeout_def nth_append)


lemma register_sends:
  assumes "mainWs t = Some n" "is_open t n"
  shows "last (effects (register h t)) =
           SentJson n \<lparr>req_id = Some (''msg_'' @ show_nat (Suc (msgId t))), req_type = ''register'',
                        req_uri = None, req_payload = Some (handshake_payload t)\<rparr>"
proof -
  let ?i = "''msg_'' @ show_nat (Suc (msgId t))"
  let ?s3 = "t\<lparr>msgId := Suc (msgId t), registrationRequestId := Some ?i,
                pendingRequests := (pendingRequests t)(?i \<mapsto> RegisterHandler h)\<rparr>"
  let ?m = "\<lparr>req_id = Some ?i, req_type = ''register'', req_uri = None,
             req_payload = Some (handshake_payload t)\<rparr>"
  have eq: "register h t =
          (case send_json (mainWs ?s3) ?m ?s3 of
             Inl e \<Rightarrow> fail h e ?s3
           | Inr s4 \<Rightarrow> setTimeout (RegisterTimeout ?i h) s4)"
    by (simp add: register_def nextId_def Let_def split: sum.splits)
  have "send_json (mainWs ?s3) ?m ?s3 = Inr (emit (SentJson n ?m) ?s3)"
    using assms by (simp add: send_json_def is_open_def)
  then show ?thesis
    unfolding eq by simp
qed

lemma onopen_sends_register:
  assumes "n < length (sockets t)" "ws_readyState (sockets t ! n) = CONNECTING"
    "\<not> ws_pointer (sockets t ! n)" "mainWs t = Some n"
  shows "last (effects (step (WsOpen n) t)) =
           SentJson n \<lparr>req_id = Some (''msg_'' @ show_nat (Suc (msgId t))), req_type = ''register'',
                        req_uri = None, req_payload = Some (handshake_payload t)\<rparr>"
proof -
  let ?t1 = "setStatus pairing (clearTimeout (ConnectTimeout n) (set_readyState n OPEN t))"
  have 1: "mainWs ?t1 = Some n" "is_open ?t1 n" "msgId ?t1 = msgId t"
    "handshake_payload ?t1 = handshake_payload t"
    using assms
    by (simp_all add: is_open_def set_readyState_def handshake_payload_def split: option.splits)
  have "step (WsOpen n) t = register n ?t1"
    using assms by (simp add: step_def Let_def onopen_def)
  then show ?thesis
    using register_sends [OF 1(1,2), of n] 1(3,4) by simp
qed

text \<open>
  C3. Let the handler of \<open>register\<close> run for an attempt that is still awaited. On a
  response of type \<open>registered\<close>, or of type \<open>response\<close> with a non-empty string
  \<open>client-key\<close>, and on no other, the session becomes \<open>ready\<close> and the attempt
  resolves; a returned key replaces the one held, and the key then held, if not empty,
  is written to the file together with the address (a non-empty address and a writable
  file given). On a response of type \<open>error\<close> the handler sets the session to
  \<open>disconnected\<close> (the listener is told so first) and rejects with the error text of
  the response, or \<open>Registration failed\<close> without one: the attempt is settled and the
  handler sends nothing. What follows is the \<open>catch\<close> of \<open>connect\<close>: with no endpoint
  left, \<open>connect\<close> rejects with that text in its last entry, the session being
  \<open>disconnected\<close>; with an endpoint left, \<open>connect\<close> does not reject but goes on to
  it, the session being \<open>connecting\<close> again and a new attempt, which carries the text
  among its errors, being awaited on a new socket; when that socket opens, the
  handshake is sent on it under the next identifier.
\<close>

theorem register_handler_outcome:
  assumes "h < length (sockets s)" and "\<not> ws_settled (sockets s ! h)"
  shows
    "(resp_type resp = ''registered''
        \<or> (resp_type resp = ''response'' \<and> returnedClientKey resp \<noteq> None) \<longrightarrow>
        status (register_handler h resp s) = ready
        \<and> last (effects (register_handler h resp s)) = ConnectResolved
        \<and> ws_settled (sockets (register_handler h resp s) ! h)
        \<and> clientKey (register_handler h resp s) =
            (case returnedClientKey resp of Some k \<Rightarrow> Some k | None \<Rightarrow> clientKey s)
        \<and> (\<forall>ip k. tvIp s = Some ip \<and> ip \<noteq> [] \<and> fsWritable s
                  \<and> clientKey (register_handler h resp s) = Some k \<and> k \<noteq> [] \<longrightarrow>
               store (register_handler h resp s) = Some \<lparr>cfg_tvIp = ip, cfg_clientKey = k\<rparr>))
     \<and> (\<not> (resp_type resp = ''registered''
            \<or> (resp_type resp = ''response'' \<and> returnedClientKey resp \<noteq> None)) \<longrightarrow>
          ConnectResolved \<notin> set (added s (register_handler h resp s))
          \<and> (status s \<noteq> ready \<longrightarrow> status (register_handler h resp s) \<noteq> ready)
          \<and> clientKey (register_handler h resp s) = clientKey s
          \<and> store (register_handler h resp s) = store s)
     \<and> (resp_type resp = ''error'' \<longrightarrow>
          register_handler h resp s =
            fail h (case resp_error resp of
                      Some e \<Rightarrow> if e \<noteq> [] then e else ''Registration failed''
                    | None \<Rightarrow> ''Registration failed'')
              (setStatus disconnected s)
          \<and> (onStatusChange s \<longrightarrow>
                hd (added s (register_handler h resp s)) =
                  Notify ((getStatus s)\<lparr>st_status := disconnected\<rparr>))
          \<and> ws_settled (sockets (register_handler h resp s) ! h)
          \<and> (\<forall>a r. SentJson a r \<notin> set (added s (register_handler h resp s)))
          \<and> (ws_rest (sockets s ! h) = [] \<longrightarrow>
                status (register_handler h resp s) = disconnected
                \<and> last (effects (register_handler h resp s)) =
                    ConnectRejected (''Failed to connect to TV. Attempts: '' @
                      join '' | '' (ws_errors (sockets s ! h) @
                        [ws_url (sockets s ! h) @ '' -> '' @
                         (case resp_error resp of
                            Some e \<Rightarrow> if e \<noteq> [] then e else ''Registration failed''
                          | None \<Rightarrow> ''Registration failed'')])))
          \<and> (\<forall>u us. ws_rest (sockets s ! h) = u # us \<and> wsCtorError s u = None \<longrightarrow>
                status (register_handler h resp s) = connecting
                \<and> rejs (register_handler h resp s) = rejs s
                \<and> mainWs (register_handler h resp s) = Some (length (sockets s))
                \<and> sockets (register_handler h resp s) ! length (sockets s) =
                    \<lparr>ws_url = u, ws_readyState = CONNECTING, ws_pointer = False,
                     ws_settled = False, ws_rest = us,
                     ws_errors = ws_errors (sockets s ! h) @
                        [ws_url (sockets s ! h) @ '' -> '' @
                         (case resp_error resp of
                            Some e \<Rightarrow> if e \<noteq> [] then e else ''Registration failed''
                          | None \<Rightarrow> ''Registration failed'')]\<rparr>
                \<and> last (effects (step (WsOpen (length (sockets s))) (register_handler h resp s))) =
                    SentJson (length (sockets s))
                      \<lparr>req_id = Some (''msg_'' @ show_nat (Suc (msgId s))), req_type = ''register'',
                       req_uri = None, req_payload = Some (handshake_payload s)\<rparr>))"
proof (intro conjI impI allI)
  assume ok: "resp_type resp = ''registered''
        \<or> (resp_type resp = ''response'' \<and> returnedClientKey resp \<noteq> None)"
  show "status (register_handler h resp s) = ready"
    "last (effects (register_handler h resp s)) = ConnectResolved"
    "ws_settled (sockets (register_handler h resp s) ! h)"
    "clientKey (register_handler h resp s) =
            (case returnedClientKey resp of Some k \<Rightarrow> Some k | None \<Rightarrow> clientKey s)"
    by (rule register_handler_success [OF assms ok])+
  show "store (register_handler h resp s) = Some \<lparr>cfg_tvIp = ip, cfg_clientKey = k\<rparr>"
    if "tvIp s = Some ip \<and> ip \<noteq> [] \<and> fsWritable s
          \<and> clientKey (register_handler h resp s) = Some k \<and> k \<noteq> []" for ip k
    using that by (intro register_handler_store [OF ok]) simp_all
next
  assume no: "\<not> (resp_type resp = ''registered''
            \<or> (resp_type resp = ''response'' \<and> returnedClientKey resp \<noteq> None))"
  show "ConnectResolved \<notin> set (added s (register_handler h resp s))"
    by (rule register_handler_not_ok(1) [OF assms no])
  show "status (register_handler h resp s) \<noteq> ready" if "status s \<noteq> ready"
    using register_handler_not_ok(2) [OF assms no] that by blast
  show "clientKey (register_handler h resp s) = clientKey s"
    using no unfolding clientKey_register_handler by simp
  show "store (register_handler h resp s) = store s"
    using no unfolding store_register_handler by auto
next
  let ?e = "case resp_error resp of
              Some e \<Rightarrow> if e \<noteq> [] then e else ''Registration failed''
            | None \<Rightarrow> ''Registration failed''"
  let ?s = "setStatus disconnected s"
  assume err: "resp_type resp = ''error''"
  show eq: "register_handler h resp s = fail h ?e ?s"
    by (rule register_handler_error [OF err])
  have h': "h < length (sockets ?s)" "\<not> ws_settled (sockets ?s ! h)"
    using assms by simp_all
  obtain xs where xs: "effects (fail h ?e ?s) = effects ?s @ xs"
      "\<forall>e \<in> set xs. (\<exists>t. e = Notify t) \<or> (\<exists>m. e = ConnectRejected m)"
    using effects_fail by blast
  have ad: "added s (register_handler h resp s) =
          (if onStatusChange s then [Notify ((getStatus s)\<lparr>st_status := disconnected\<rparr>)] else []) @ xs"
    by (rule added_append) (simp add: eq xs(1) effects_setStatus)
  show "hd (added s (register_handler h resp s)) = Notify ((getStatus s)\<lparr>st_status := disconnected\<rparr>)"
    if "onStatusChange s"
    using that by (simp add: ad)
  show "ws_settled (sockets (register_handler h resp s) ! h)"
    unfolding eq by (rule settled_fail [OF h'(1)])
  show "SentJson a r \<notin> set (added s (register_handler h resp s))" for a r
    using xs(2) by (auto simp add: ad)
  show "status (register_handler h resp s) = disconnected" if "ws_rest (sockets s ! h) = []"
    unfolding eq using fail_last_candidate(1) [OF h', of ?e] that by simp
  show "last (effects (register_handler h resp s)) =
          ConnectRejected (''Failed to connect to TV. Attempts: '' @
            join '' | '' (ws_errors (sockets s ! h) @ [ws_url (sockets s ! h) @ '' -> '' @ ?e]))"
    if "ws_rest (sockets s ! h) = []"
    unfolding eq using fail_last_candidate(2) [OF h', of ?e] that by simp
  fix u us
  assume "ws_rest (sockets s ! h) = u # us \<and> wsCtorError s u = None"
  then have n: "ws_rest (sockets ?s ! h) = u # us" "wsCtorError ?s u = None"
    by simp_all
  show "status (register_handler h resp s) = connecting"
    unfolding eq by (rule fail_next_candidate(1) [OF h' n])
  show "rejs (register_handler h resp s) = rejs s"
    unfolding eq using fail_next_candidate(5) [OF h' n, of ?e] by simp
  show "mainWs (register_handler h resp s) = Some (length (sockets s))"
    unfolding eq using fail_next_candidate(2) [OF h' n, of ?e] by simp
  show sk: "sockets (register_handler h resp s) ! length (sockets s) =
          \<lparr>ws_url = u, ws_readyState = CONNECTING, ws_pointer = False,
           ws_settled = False, ws_rest = us,
           ws_errors = ws_errors (sockets s ! h) @ [ws_url (sockets s ! h) @ '' -> '' @ ?e]\<rparr>"
    unfolding eq using fail_next_candidate(4) [OF h' n, of ?e] by simp
  have "length (sockets s) < length (sockets (register_handler h resp s))"
    unfolding eq using fail_next_candidate(3) [OF h' n, of ?e] by simp
  moreover have "mainWs (register_handler h resp s) = Some (length (sockets s))"
    unfolding eq using fail_next_candidate(2) [OF h' n, of ?e] by simp
  moreover have "msgId (register_handler h resp s) = msgId s"
    "handshake_payload (register_handler h resp s) = handshake_payload s"
    unfolding eq by (simp_all add: handshake_payload_def split: option.splits)
  ultimately show "last (effects (step (WsOpen (length (sockets s))) (register_handler h resp s))) =
          SentJson (length (sockets s))
            \<lparr>req_id = Some (''msg_'' @ show_nat (Suc (msgId s))), req_type = ''register'',
             req_uri = None, req_payload = Some (handshake_payload s)\<rparr>"
    using onopen_sends_register [of "length (sockets s)" "register_handler h resp s"] sk
    by simp
qed

theorem register_handler_outcome_witness:
  "0 < length (sockets (run [CallSetStatusCallback, CallConnect ''10.0.0.5'', WsOpen 0] (fresh None)))
   \<and> \<not> ws_settled (sockets (run [CallSetStatusCallback, CallConnect ''10.0.0.5'', WsOpen 0] (fresh None)) ! 0)
   \<and> status (register_handler 0 (msg_response ''msg_1'' [(''client-key'', JStr ''abc123'')])
        (run [CallSetStatusCallback, CallConnect ''10.0.0.5'', WsOpen 0] (fresh None))) = ready
   \<and> clientKey (register_handler 0 (msg_response ''msg_1'' [(''client-key'', JStr ''abc123'')])
        (run [CallSetStatusCallback, CallConnect ''10.0.0.5'', WsOpen 0] (fresh None))) = Some ''abc123''
   \<and> store (run [CallSetStatusCallback, CallConnect ''10.0.0.5'', WsOpen 0] (fresh None)) = None
   \<and> store (register_handler 0 (msg_response ''msg_1'' [(''client-key'', JStr ''abc123'')])
        (run [CallSetStatusCallback, CallConnect ''10.0.0.5'', WsOpen 0] (fresh None)))
       = Some \<lparr>cfg_tvIp = ''10.0.0.5'', cfg_clientKey = ''abc123''\<rparr>
   \<and> last (effects (register_handler 0 (msg_response ''msg_1'' [(''client-key'', JStr ''abc123'')])
        (run [CallSetStatusCallback, CallConnect ''10.0.0.5'', WsOpen 0] (fresh None)))) = ConnectResolved
   \<and> status (register_handler 0 (msg_error ''msg_1'' ''rejected'')
        (run [CallSetStatusCallback, CallConnect ''10.0.0.5'', WsOpen 0] (fresh None))) = connecting
   \<and> sockets (register_handler 0 (msg_error ''msg_1'' ''rejected'')
        (run [CallSetStatusCallback, CallConnect ''10.0.0.5'', WsOpen 0] (fresh None))) ! 1
       = \<lparr>ws_url = ''wss://10.0.0.5:3000'', ws_readyState = CONNECTING, ws_pointer = False,
          ws_settled = False, ws_rest = [''ws://10.0.0.5:3000''],
          ws_errors = [''wss://10.0.0.5:3001 -> rejected'']\<rparr>
   \<and> status (register_handler 2 (msg_error ''msg_1'' ''rejected'')
        (run [CallConnect ''10.0.0.5'', WsError 0 ''refused'', WsError 1 ''refused'', WsOpen 2] (fresh None)))
       = disconnected
   \<and> last (effects (register_handler 2 (msg_error ''msg_1'' ''rejected'')
        (run [CallConnect ''10.0.0.5'', WsError 0 ''refused'', WsError 1 ''refused'', WsOpen 2] (fresh None))))
       = ConnectRejected
           (''Failed to connect to TV. Attempts: '' @
            ''wss://10.0.0.5:3001 -> WebSocket connection failed at wss://10.0.0.5:3001: refused | '' @
            ''wss://10.0.0.5:3000 -> WebSocket connection failed at wss://10.0.0.5:3000: refused | '' @
            ''ws://10.0.0.5:3000 -> rejected'')"
proof -
  let ?s = "run [CallSetStatusCallback, CallConnect ''10.0.0.5'', WsOpen 0] (fresh None)"
  let ?r = "msg_response ''msg_1'' [(''client-key'', JStr ''abc123'')]"
  let ?t = "run [CallConnect ''10.0.0.5'', WsError 0 ''refused'', WsError 1 ''refused'', WsOpen 2] (fresh None)"
  let ?e = "msg_error ''msg_1'' ''rejected''"
  have a: "0 < length (sockets ?s)" "\<not> ws_settled (sockets ?s ! 0)"
    by code_simp+
  have a': "tvIp ?s = Some ''10.0.0.5''" "fsWritable ?s" "store ?s = None"
    by code_simp+
  have a'': "ws_rest (sockets ?s ! 0) = [''wss://10.0.0.5:3000'', ''ws://10.0.0.5:3000'']"
    "wsCtorError ?s ''wss://10.0.0.5:3000'' = None" "length (sockets ?s) = 1"
    "ws_url (sockets ?s ! 0) = ''wss://10.0.0.5:3001''" "ws_errors (sockets ?s ! 0) = []"
    by code_simp+
  have b: "2 < length (sockets ?t)" "\<not> ws_settled (sockets ?t ! 2)"
    by code_simp+
  have c: "ws_rest (sockets ?t ! 2) = []" "ws_url (sockets ?t ! 2) = ''ws://10.0.0.5:3000''"
    "ws_errors (sockets ?t ! 2) =
       [''wss://10.0.0.5:3001 -> WebSocket connection failed at wss://10.0.0.5:3001: refused'',
        ''wss://10.0.0.5:3000 -> WebSocket connection failed at wss://10.0.0.5:3000: refused'']"
    by code_simp+
  have r: "resp_type ?r = ''response''" "returnedClientKey ?r = Some ''abc123''"
    by (simp_all add: msg_response_def returnedClientKey_def)
  have e: "resp_type ?e = ''error''" "resp_error ?e = Some ''rejected''"
    by (simp_all add: msg_error_def)
  have ne: "''10.0.0.5'' \<noteq> []" "''abc123'' \<noteq> []"
    by simp_all
  have ok: "resp_type ?r = ''registered''
            \<or> (resp_type ?r = ''response'' \<and> returnedClientKey ?r \<noteq> None)"
    using r by simp
  note S = register_handler_outcome [OF a, of ?r, THEN conjunct1, THEN mp, OF ok]
  note E = register_handler_outcome [OF a, of ?e, THEN conjunct2, THEN conjunct2, THEN mp, OF e(1)]
  note L = register_handler_outcome [OF b, of ?e, THEN conjunct2, THEN conjunct2, THEN mp, OF e(1)]
  have 1: "status (register_handler 0 ?r ?s) = ready"
    by (rule S [THEN conjunct1])
  have 2: "last (effects (register_handler 0 ?r ?s)) = ConnectResolved"
    by (rule S [THEN conjunct2, THEN conjunct1])
  have k: "clientKey (register_handler 0 ?r ?s) = Some ''abc123''"
    using S [THEN conjunct2, THEN conjunct2, THEN conjunct2, THEN conjunct1]
    unfolding r(2) by simp
  have st: "store (register_handler 0 ?r ?s) = Some \<lparr>cfg_tvIp = ''10.0.0.5'', cfg_clientKey = ''abc123''\<rparr>"
    by (rule S [THEN conjunct2, THEN conjunct2, THEN conjunct2, THEN conjunct2, rule_format])
       (use a' k ne in blast)
  note N = E [THEN conjunct2, THEN conjunct2, THEN conjunct2, THEN conjunct2, THEN conjunct2,
              rule_format, OF conjI, OF a''(1,2)]
  have 3: "status (register_handler 0 ?e ?s) = connecting"
    by (rule N [THEN conjunct1])
  have 4: "sockets (register_handler 0 ?e ?s) ! 1 =
             \<lparr>ws_url = ''wss://10.0.0.5:3000'', ws_readyState = CONNECTING, ws_pointer = False,
              ws_settled = False, ws_rest = [''ws://10.0.0.5:3000''],
              ws_errors = [''wss://10.0.0.5:3001 -> rejected'']\<rparr>"
    using N [THEN conjunct2, THEN conjunct2, THEN conjunct2]
    unfolding a''(3,4,5) e(2) by simp
  note M = L [THEN conjunct2, THEN conjunct2, THEN conjunct2, THEN conjunct2, THEN conjunct1,
              THEN mp, OF c(1)]
  have 5: "status (register_handler 2 ?e ?t) = disconnected"
    by (rule M [THEN conjunct1])
  have 6: "last (effects (register_handler 2 ?e ?t)) =
             ConnectRejected
               (''Failed to connect to TV. Attempts: '' @
                ''wss://10.0.0.5:3001 -> WebSocket connection failed at wss://10.0.0.5:3001: refused | '' @
                ''wss://10.0.0.5:3000 -> WebSocket connection failed at wss://10.0.0.5:3000: refused | '' @
                ''ws://10.0.0.5:3000 -> rejected'')"
    using M [THEN conjunct2] unfolding c e(2) by simp
  from a a'(3) 1 2 k st 3 4 5 6 show ?thesis
    by blast
qed

text \<open>
  The handshake is tried again: an \<open>error\<close> response on the first endpoint leaves the
  session \<open>connecting\<close> with nothing rejected; when the socket of the second endpoint
  opens, \<open>register\<close> is sent there under the next identifier, and a \<open>registered\<close>
  response to it makes the session \<open>ready\<close> and resolves \<open>connect\<close>.
\<close>

theorem handshake_error_tries_next_endpoint:
  "status (run [CallConnect ''10.0.0.5'', WsOpen 0,
                WsMessage 0 (Some (msg_error ''msg_1'' ''rejected''))] (fresh None)) = connecting
   \<and> rejs (run [CallConnect ''10.0.0.5'', WsOpen 0,
                WsMessage 0 (Some (msg_error ''msg_1'' ''rejected''))] (fresh None)) = []
   \<and> last (effects (run [CallConnect ''10.0.0.5'', WsOpen 0,
                WsMessage 0 (Some (msg_error ''msg_1'' ''rejected'')), WsOpen 1] (fresh None)))
       = SentJson 1 \<lparr>req_id = Some ''msg_2'', req_type = ''register'', req_uri = None,
                     req_payload = Some []\<rparr>
   \<and> status (run [CallConnect ''10.0.0.5'', WsOpen 0,
                WsMessage 0 (Some (msg_error ''msg_1'' ''rejected'')), WsOpen 1,
                WsMessage 1 (Some (msg_registered ''msg_2''))] (fresh None)) = ready
   \<and> ConnectResolved \<in> set (effects (run [CallConnect ''10.0.0.5'', WsOpen 0,
                WsMessage 0 (Some (msg_error ''msg_1'' ''rejected'')), WsOpen 1,
                WsMessage 1 (Some (msg_registered ''msg_2''))] (fresh None)))
   \<and> rejs (run [CallConnect ''10.0.0.5'', WsOpen 0,
                WsMessage 0 (Some (msg_error ''msg_1'' ''rejected'')), WsOpen 1,
                WsMessage 1 (Some (msg_registered ''msg_2''))] (fresh None)) = []"
  by code_simp

subsection \<open>Every rejection of connect lists three attempts\<close>









lemma sockets_ok_same: "sockets s' = sockets s \<Longrightarrow> sockets_ok s \<Longrightarrow> sockets_ok s'"
  by (simp add: sockets_ok_def)




lemma sockets_ok_setStatus [simp]: "sockets_ok (setStatus x s) = sockets_ok s"
  by (simp add: sockets_ok_def)


lemma rejects_well_same: "rejs s' = rejs s \<Longrightarrow> rejects_well s s'"
  by (simp add: rejects_well_def)






lemma sockets_ok_emit [simp]: "sockets_ok (emit e s) = sockets_ok s"
  by (simp add: sockets_ok_def)












lemma run_snoc: "run (evs @ [e]) s = step e (run evs s)"
  by (induction evs arbitrary: s) simp_all





lemma length_sockets_close_opt [simp]: "length (sockets (close_opt w s)) = length (sockets s)"
  by (simp add: close_opt_def ws_close_def split: option.splits)

lemma length_sockets_disconnect [simp]: "length (sockets (disconnect s)) = length (sockets s)"
  by (simp add: disconnect_def Let_def)






end
